theory Spec2Isabelle
  imports Complex_Main
begin

section \<open>Data model\<close>

text \<open>
  The registry (\<open>State\<close>, src/state/State.cc) holds reference-counted pointers
  (\<open>Teuchos::RCP\<close>) to \<open>Field\<close> objects, which in turn hold a pointer to their
  \<open>Epetra_MultiVector\<close> buffer; the scalars \<open>density_\<close>, \<open>viscosity_\<close> and the
  vector \<open>gravity_\<close> are heap cells too. Copy construction, assignment and the setters
  differ exactly in which cells they allocate and which they overwrite, so the embedding
  keeps an explicit store: one list of cells per pointee type, an address being an index.
  The pointers to Field objects and to the scalars come from \<open>new\<close> only and are
  never null; the pointer of a Field to its buffer can be set from outside
  (\<open>set_field_pointer\<close>) and may be null, so it is an \<open>addr option\<close> (\<open>None\<close> is
  the null \<open>RCP\<close>). Dereferencing a null pointer, or an address outside the store, is
  the error \<open>NullPointer\<close>.

  A \<open>double\<close> is only stored, copied and compared by the code modelled here, never
  computed with, so it is modelled by \<open>real\<close>.
\<close>

type_synonym double = real
type_synonym addr = nat

datatype FieldLocation = FIELD_LOCATION_CELL | FIELD_LOCATION_FACE | FIELD_LOCATION_OTHER

text \<open>
  The fatal errors, one constructor per message of \<open>Exceptions::amanzi_throw\<close> in
  State.cc, and the exceptions of the collaborators: \<open>Teuchos::ParameterList\<close>
  (\<open>InvalidParameterName\<close>, \<open>InvalidParameterType\<close>), a null pointer dereference and
  an access outside an array (undefined behaviour in the source, made a value here).
\<close>

datatype error =
    NonCompatibleStates
  | LocationConflict
  | AlreadyOwned
  | UnknownField
  | InvalidParameterName
  | InvalidParameterType
  | NullPointer
  | OutOfBounds

text \<open>
  The mesh collaborator (\<open>Amanzi::AmanziMesh::Mesh\<close>), read only: entity counts per
  location kind, the entities of a mesh block, and the value the mesh geometry gives an
  entity for a spatial 3-vector (used by \<open>set_vector_data\<close> only).
\<close>

record Mesh =
  count_entities :: "FieldLocation \<Rightarrow> nat"
  block_entities :: "int \<Rightarrow> FieldLocation \<Rightarrow> nat list"
  vector_component :: "FieldLocation \<Rightarrow> nat \<Rightarrow> double list \<Rightarrow> double"

text \<open>
  The configuration collaborator (\<open>Teuchos::ParameterList\<close>): typed entries by name.
  \<open>isParameter\<close> asks for the name only; \<open>get<T>\<close> throws on a missing name and on
  an entry of another type; the non-const \<open>sublist\<close> creates an empty sublist when the
  name is missing.
\<close>

datatype ParameterEntry =
    PDouble double
  | PInt int
  | PList "(string \<times> ParameterEntry) list"

type_synonym ParameterList = "(string \<times> ParameterEntry) list"

definition isParameter :: "ParameterList \<Rightarrow> string \<Rightarrow> bool" where
  "isParameter pl name = (map_of pl name \<noteq> None)"

definition get_double :: "ParameterList \<Rightarrow> string \<Rightarrow> error + double" where
  "get_double pl name =
     (case map_of pl name of
        None \<Rightarrow> Inl InvalidParameterName
      | Some (PDouble d) \<Rightarrow> Inr d
      | Some _ \<Rightarrow> Inl InvalidParameterType)"

definition get_int :: "ParameterList \<Rightarrow> string \<Rightarrow> error + int" where
  "get_int pl name =
     (case map_of pl name of
        None \<Rightarrow> Inl InvalidParameterName
      | Some (PInt i) \<Rightarrow> Inr i
      | Some _ \<Rightarrow> Inl InvalidParameterType)"

definition sublist_of :: "ParameterList \<Rightarrow> string \<Rightarrow> error + (ParameterList \<times> ParameterList)" where
  "sublist_of pl name =
     (case map_of pl name of
        None \<Rightarrow> Inr ([], pl @ [(name, PList [])])
      | Some (PList l) \<Rightarrow> Inr (l, pl)
      | Some _ \<Rightarrow> Inl InvalidParameterType)"

type_synonym MultiVector = "double list list"

text \<open>
  Modelled from the spec: the class \<open>Field\<close> (Field.hh and Field.cc are not among the
  sources). Its attributes are those of section 3 of the specification: name, location,
  owner, number of degrees of freedom, subfield names, the initialized latch and the data
  buffer, here the address of the buffer; the dirty mark is the one of section 4.1, the
  mesh handle is the constructor's argument in \<open>State::require_field\<close>.
\<close>

text \<open>
  Isabelle reads a trailing underscore as the mark of an internal name, so the member
  \<open>x_\<close> of class \<open>C\<close> is the record field \<open>C_x\<close>.
\<close>

record Field =
  Field_fieldname :: string
  Field_location :: FieldLocation
  Field_mesh_maps :: Mesh
  Field_owner :: string
  Field_num_dofs :: int
  Field_subfield_names :: "string list"
  Field_initialized :: bool
  Field_dirty :: bool
  Field_data :: "addr option"

text \<open>
  The members of \<open>State\<close> that State.cc reads and writes. \<open>field_name_map_\<close> is the
  \<open>std::map\<close> from names to indices into \<open>fields_\<close>; \<open>fields_\<close> is the vector of
  \<open>RCP<Field>\<close>; \<open>density_\<close>, \<open>viscosity_\<close> and \<open>gravity_\<close> are pointers.
\<close>

record State =
  State_mesh_maps :: Mesh
  State_parameter_list :: ParameterList
  State_density :: addr
  State_viscosity :: addr
  State_gravity :: addr
  State_field_name_map :: "string \<rightharpoonup> nat"
  State_fields :: "addr list"
  State_time :: double
  State_cycle :: int
  State_status :: int

record heap =
  state_objs :: "State list"
  field_objs :: "Field list"
  multivectors :: "MultiVector list"
  double_cells :: "double list"
  vector_cells :: "double list list"

definition deref :: "'a list \<Rightarrow> addr \<Rightarrow> 'a option" where
  "deref store a = (if a < length store then Some (store ! a) else None)"

definition deref_rcp :: "'a list \<Rightarrow> addr option \<Rightarrow> 'a option" where
  "deref_rcp store p = (case p of None \<Rightarrow> None | Some a \<Rightarrow> deref store a)"

text \<open>
  Sequencing of two statements: the second runs in the store the first left, unless the
  first threw.
\<close>

definition then_do :: "error option \<times> heap \<Rightarrow> (heap \<Rightarrow> error option \<times> heap) \<Rightarrow> error option \<times> heap" where
  "then_do r k = (case r of (None, h) \<Rightarrow> k h | (Some e, h) \<Rightarrow> (Some e, h))"

text \<open>An iterator loop over a vector of pointers; an exception in the body leaves it.\<close>

fun for_each :: "(heap \<Rightarrow> addr \<Rightarrow> error option \<times> heap) \<Rightarrow> heap \<Rightarrow> addr list \<Rightarrow> error option \<times> heap" where
  "for_each body h [] = (None, h)"
| "for_each body h (a # as) = then_do (body h a) (\<lambda>h'. for_each body h' as)"

definition update_field :: "heap \<Rightarrow> addr \<Rightarrow> (Field \<Rightarrow> Field) \<Rightarrow> heap" where
  "update_field h fa g = h\<lparr>field_objs := (field_objs h)[fa := g (field_objs h ! fa)]\<rparr>"

definition update_state :: "heap \<Rightarrow> addr \<Rightarrow> (State \<Rightarrow> State) \<Rightarrow> heap" where
  "update_state h sa g = h\<lparr>state_objs := (state_objs h)[sa := g (state_objs h ! sa)]\<rparr>"


section \<open>Field\<close>

text \<open>
  Modelled from the spec: the constructor \<open>Field(fieldname, location, mesh, owner,
  num_dofs)\<close> (Field.cc is absent). Section 3: the Field is created with the requested
  owner, its location and dof count, no subfield names, not initialized, and a buffer
  sized (number of mesh entities of the location) x (number of dofs).
\<close>

definition Field_new :: "heap \<Rightarrow> string \<Rightarrow> FieldLocation \<Rightarrow> Mesh \<Rightarrow> string \<Rightarrow> int \<Rightarrow> heap \<times> addr" where
  "Field_new h fieldname location mesh owner num_dofs =
     (let buffer = replicate (nat num_dofs) (replicate (count_entities mesh location) 0);
          f = \<lparr>Field_fieldname = fieldname, Field_location = location, Field_mesh_maps = mesh,
               Field_owner = owner, Field_num_dofs = num_dofs, Field_subfield_names = [],
               Field_initialized = False, Field_dirty = False,
               Field_data = Some (length (multivectors h))\<rparr>
      in (h\<lparr>field_objs := field_objs h @ [f], multivectors := multivectors h @ [buffer]\<rparr>,
          length (field_objs h)))"

text \<open>
  Modelled from the spec: the copy constructor of \<open>Field\<close> (Field.cc is absent), as
  \<open>new Field(*(s.fields_[lcv]))\<close> uses it. Section 8 (value independence after copy):
  the new Field has the attributes of the old one and a buffer of its own with the same
  values.
\<close>

definition Field_copy :: "heap \<Rightarrow> addr \<Rightarrow> (error + addr) \<times> heap" where
  "Field_copy h fa =
     (case deref (field_objs h) fa of
        None \<Rightarrow> (Inl NullPointer, h)
      | Some f \<Rightarrow>
          (case deref_rcp (multivectors h) (Field_data f) of
             None \<Rightarrow> (Inl NullPointer, h)
           | Some buffer \<Rightarrow>
               (Inr (length (field_objs h)),
                h\<lparr>field_objs := field_objs h @ [f\<lparr>Field_data := Some (length (multivectors h))\<rparr>],
                  multivectors := multivectors h @ [buffer]\<rparr>)))"

text \<open>
  Modelled from the spec: the values that \<open>Field::operator=\<close> writes (Field.cc is
  absent). Section 5: assignment overwrites only values, never structure. The buffer of
  the target keeps its shape, and every entry that the source's buffer has too takes the
  source's value: all of them when the two shapes agree, as they do between Fields of
  identical schema on one mesh.
\<close>

definition overwrite_vector :: "double list \<Rightarrow> double list \<Rightarrow> double list" where
  "overwrite_vector old new = take (length old) new @ drop (length new) old"

definition overwrite_values :: "MultiVector \<Rightarrow> MultiVector \<Rightarrow> MultiVector" where
  "overwrite_values old new =
     map (\<lambda>(v, w). overwrite_vector v w) (zip old new) @ drop (length new) old"

text \<open>
  Modelled from the spec: \<open>Field::operator=\<close> (Field.cc is absent), as
  \<open>*(fields_[lcv]) = *(s.fields_[lcv])\<close> uses it. Section 5: assignment overwrites
  only values, never structure; section 3: the location and the number of degrees of
  freedom of a Field are fixed at creation and never change. The target keeps its name,
  location, mesh, owner, number of degrees of freedom, subfield names and flags, and its
  own buffer; the values of the source's buffer are written into it.
\<close>

definition Field_assign :: "heap \<Rightarrow> addr \<Rightarrow> addr \<Rightarrow> error option \<times> heap" where
  "Field_assign h dst src =
     (case (deref (field_objs h) dst, deref (field_objs h) src) of
        (Some fd, Some fs) \<Rightarrow>
          (case (Field_data fd, deref_rcp (multivectors h) (Field_data fs)) of
             (Some da, Some buffer) \<Rightarrow>
               (case deref (multivectors h) da of
                  None \<Rightarrow> (Some NullPointer, h)
                | Some old \<Rightarrow>
                    (None, h\<lparr>multivectors := (multivectors h)[da := overwrite_values old buffer]\<rparr>))
           | _ \<Rightarrow> (Some NullPointer, h))
      | _ \<Rightarrow> (Some NullPointer, h))"

text \<open>
  Modelled from the spec: \<open>Field::set_owner\<close> (Field.hh is absent); section 4.2,
  "transfer ownership".
\<close>

definition Field_set_owner :: "heap \<Rightarrow> addr \<Rightarrow> string \<Rightarrow> error option \<times> heap" where
  "Field_set_owner h fa owner =
     (case deref (field_objs h) fa of
        None \<Rightarrow> (Some NullPointer, h)
      | Some f \<Rightarrow> (None, update_field h fa (\<lambda>f. f\<lparr>Field_owner := owner\<rparr>)))"

text \<open>
  Modelled from the spec: \<open>Field::set_initialized\<close> (Field.hh is absent); section 4.1,
  a one-way latch.
\<close>

definition Field_set_initialized :: "heap \<Rightarrow> addr \<Rightarrow> error option \<times> heap" where
  "Field_set_initialized h fa =
     (case deref (field_objs h) fa of
        None \<Rightarrow> (Some NullPointer, h)
      | Some f \<Rightarrow> (None, update_field h fa (\<lambda>f. f\<lparr>Field_initialized := True\<rparr>)))"

text \<open>
  Modelled from the spec: \<open>Field::set_subfield_names\<close> (Field.hh is absent);
  section 4.1, declares the names of the degrees of freedom.
\<close>

definition Field_set_subfield_names :: "heap \<Rightarrow> addr \<Rightarrow> string list \<Rightarrow> error option \<times> heap" where
  "Field_set_subfield_names h fa names =
     (case deref (field_objs h) fa of
        None \<Rightarrow> (Some NullPointer, h)
      | Some f \<Rightarrow> (None, update_field h fa (\<lambda>f. f\<lparr>Field_subfield_names := names\<rparr>)))"

text \<open>
  Modelled from the spec: \<open>Field::get_data()\<close> const (Field.hh is absent); section 4.1,
  returns the current buffer, always succeeds once the Field exists.
\<close>

definition Field_get_data :: "heap \<Rightarrow> addr \<Rightarrow> error + addr option" where
  "Field_get_data h fa =
     (case deref (field_objs h) fa of None \<Rightarrow> Inl NullPointer | Some f \<Rightarrow> Inr (Field_data f))"

text \<open>
  Modelled from the spec: \<open>Field::get_data(pk_name)\<close> (Field.hh is absent);
  section 4.1, returns a writable buffer reference; section 4.2, the requester is not
  compared with the owner.
\<close>

definition Field_get_data_mutable :: "heap \<Rightarrow> addr \<Rightarrow> string \<Rightarrow> error + addr option" where
  "Field_get_data_mutable h fa pk_name =
     (case deref (field_objs h) fa of None \<Rightarrow> Inl NullPointer | Some f \<Rightarrow> Inr (Field_data f))"

text \<open>
  Modelled from the spec: \<open>Field::set_data_pointer(pk_name, data)\<close> (Field.cc is
  absent), the setter \<open>State::set_field_pointer\<close> delegates to: the Field's buffer
  pointer becomes the given one.
\<close>

definition Field_set_data_pointer :: "heap \<Rightarrow> addr \<Rightarrow> string \<Rightarrow> addr option \<Rightarrow> error option \<times> heap" where
  "Field_set_data_pointer h fa pk_name data =
     (case deref (field_objs h) fa of
        None \<Rightarrow> (Some NullPointer, h)
      | Some f \<Rightarrow> (None, update_field h fa (\<lambda>f. f\<lparr>Field_data := data\<rparr>)))"

text \<open>
  Modelled from the spec: the common part of \<open>Field::set_data\<close> and
  \<open>Field::set_vector_data\<close> (Field.cc is absent); section 4.1: assigns all or a
  spatially restricted subset of the buffer and marks the Field dirty. \<open>w\<close> computes the
  new contents of the buffer from the Field and the old contents.
\<close>

definition Field_write :: "heap \<Rightarrow> addr \<Rightarrow> (Field \<Rightarrow> MultiVector \<Rightarrow> error + MultiVector) \<Rightarrow> error option \<times> heap" where
  "Field_write h fa w =
     (case deref (field_objs h) fa of
        None \<Rightarrow> (Some NullPointer, h)
      | Some f \<Rightarrow>
          (case Field_data f of
             None \<Rightarrow> (Some NullPointer, h)
           | Some da \<Rightarrow>
               (case deref (multivectors h) da of
                  None \<Rightarrow> (Some NullPointer, h)
                | Some buffer \<Rightarrow>
                    (case w f buffer of
                       Inl e \<Rightarrow> (Some e, h)
                     | Inr buffer' \<Rightarrow>
                         (None, (update_field h fa (\<lambda>f. f\<lparr>Field_dirty := True\<rparr>))
                                  \<lparr>multivectors := (multivectors h)[da := buffer']\<rparr>)))))"

text \<open>
  Modelled from the spec: \<open>Field::set_data(pk_name, const Epetra_MultiVector&)\<close>
  (Field.cc is absent); section 4.1, assigns all of the buffer.
\<close>

definition Field_set_data_multivector :: "heap \<Rightarrow> addr \<Rightarrow> string \<Rightarrow> MultiVector \<Rightarrow> error option \<times> heap" where
  "Field_set_data_multivector h fa pk_name data = Field_write h fa (\<lambda>f buffer. Inr data)"

text \<open>
  Modelled from the spec: \<open>Field::set_data(pk_name, const Epetra_Vector&)\<close>
  (Field.cc is absent); section 4.1, assigns all of the buffer, here from a single vector.
\<close>

definition Field_set_data_vector :: "heap \<Rightarrow> addr \<Rightarrow> string \<Rightarrow> double list \<Rightarrow> error option \<times> heap" where
  "Field_set_data_vector h fa pk_name data = Field_write h fa (\<lambda>f buffer. Inr [data])"

text \<open>
  Modelled from the spec: \<open>Field::set_data(pk_name, const double* u)\<close> (Field.cc is
  absent); section 4.1 and section 8: every entity of degree of freedom \<open>i\<close> gets
  \<open>u[i]\<close>. Reading \<open>u\<close> beyond its end is \<open>OutOfBounds\<close>.
\<close>

definition Field_set_data_array :: "heap \<Rightarrow> addr \<Rightarrow> string \<Rightarrow> double list \<Rightarrow> error option \<times> heap" where
  "Field_set_data_array h fa pk_name u =
     Field_write h fa (\<lambda>f buffer.
       if length u < length buffer then Inl OutOfBounds
       else Inr (map (\<lambda>i. map (\<lambda>_. u ! i) (buffer ! i)) [0..<length buffer]))"

text \<open>
  Modelled from the spec: \<open>Field::set_data(pk_name, double u)\<close> (Field.cc is absent);
  section 4.1, assigns all of the buffer, here one value to every entry.
\<close>

definition Field_set_data_scalar :: "heap \<Rightarrow> addr \<Rightarrow> string \<Rightarrow> double \<Rightarrow> error option \<times> heap" where
  "Field_set_data_scalar h fa pk_name u = Field_write h fa (\<lambda>f buffer. Inr (map (map (\<lambda>_. u)) buffer))"

text \<open>
  Modelled from the spec: \<open>Field::set_data(pk_name, const double* u, mesh_block_id)\<close>
  (Field.cc is absent); section 4.1: the assignment is restricted to the mesh entities
  of the block.
\<close>

definition Field_set_data_array_block :: "heap \<Rightarrow> addr \<Rightarrow> string \<Rightarrow> double list \<Rightarrow> int \<Rightarrow> error option \<times> heap" where
  "Field_set_data_array_block h fa pk_name u mesh_block_id =
     Field_write h fa (\<lambda>f buffer.
       if length u < length buffer then Inl OutOfBounds
       else Inr (map (\<lambda>i. fold (\<lambda>e v. v[e := u ! i])
                              (block_entities (Field_mesh_maps f) mesh_block_id (Field_location f))
                              (buffer ! i))
                   [0..<length buffer]))"

text \<open>
  Modelled from the spec: \<open>Field::set_data(pk_name, double u, mesh_block_id)\<close>
  (Field.cc is absent); section 4.1, as above with one value.
\<close>

definition Field_set_data_scalar_block :: "heap \<Rightarrow> addr \<Rightarrow> string \<Rightarrow> double \<Rightarrow> int \<Rightarrow> error option \<times> heap" where
  "Field_set_data_scalar_block h fa pk_name u mesh_block_id =
     Field_write h fa (\<lambda>f buffer.
       Inr (map (fold (\<lambda>e v. v[e := u])
                   (block_entities (Field_mesh_maps f) mesh_block_id (Field_location f)))
              buffer))"

text \<open>
  Modelled from the spec: \<open>Field::set_vector_data(pk_name, const double* u,
  mesh_block_id)\<close> (Field.cc is absent); section 4.1: for a Field with one degree of
  freedom that stands for a spatial vector, every entity of the block gets the value the
  mesh gives it for the 3-vector \<open>u\<close>.
\<close>

definition Field_set_vector_data :: "heap \<Rightarrow> addr \<Rightarrow> string \<Rightarrow> double list \<Rightarrow> int \<Rightarrow> error option \<times> heap" where
  "Field_set_vector_data h fa pk_name u mesh_block_id =
     Field_write h fa (\<lambda>f buffer.
       if length u < 3 \<or> buffer = [] then Inl OutOfBounds
       else Inr (buffer[0 := fold (\<lambda>e v. v[e := vector_component (Field_mesh_maps f) (Field_location f) e u])
                                  (block_entities (Field_mesh_maps f) mesh_block_id (Field_location f))
                                  (buffer ! 0)]))"


section \<open>State\<close>

text \<open>
  Modelled from the spec: \<open>State::get_field_record\<close> (declared in State.hh, which is
  absent): the pointer to the Field registered under the name; section 7: access to an
  unregistered name is fatal. An index of the name map outside \<open>fields_\<close> is
  \<open>OutOfBounds\<close>.
\<close>

definition get_field_record :: "heap \<Rightarrow> addr \<Rightarrow> string \<Rightarrow> error + addr" where
  "get_field_record h this fieldname =
     (case deref (state_objs h) this of
        None \<Rightarrow> Inl NullPointer
      | Some s \<Rightarrow>
          (case State_field_name_map s fieldname of
             None \<Rightarrow> Inl UnknownField
           | Some i \<Rightarrow> if i < length (State_fields s) then Inr (State_fields s ! i) else Inl OutOfBounds))"

text \<open>
  The constructors, State.cc lines 34-52: \<open>State(mesh_maps)\<close> is
  \<open>State_new h [] mesh_maps\<close>. The source leaves the two new doubles and \<open>time_\<close>,
  \<open>cycle_\<close>, \<open>status_\<close> indeterminate: their values are the last argument.
\<close>

definition State_new :: "heap \<Rightarrow> ParameterList \<Rightarrow> Mesh \<Rightarrow> double \<times> double \<times> double \<times> int \<times> int \<Rightarrow> heap \<times> addr" where
  "State_new h parameter_list mesh_maps indeterminate =
     (case indeterminate of
        (d, v, t, c, st) \<Rightarrow>
          (h\<lparr>state_objs := state_objs h @
                [\<lparr>State_mesh_maps = mesh_maps,
                  State_parameter_list = parameter_list,
                  State_density = length (double_cells h),
                  State_viscosity = Suc (length (double_cells h)),
                  State_gravity = length (vector_cells h),
                  State_field_name_map = Map.empty,
                  State_fields = [],
                  State_time = t,
                  State_cycle = c,
                  State_status = st\<rparr>],
              double_cells := double_cells h @ [d, v],
              vector_cells := vector_cells h @ [[0, 0, 0]]\<rparr>,
           length (state_objs h)))"

text \<open>
  \<open>State::State(const State& s)\<close>, State.cc lines 59-80. The loop over \<open>s.fields_\<close>
  is \<open>copy_fields\<close>. \<open>parameter_list_\<close> is not copied: the new object's list is
  default-constructed. An exception leaves the constructor with nothing built.
\<close>

fun copy_fields :: "heap \<Rightarrow> addr list \<Rightarrow> (error + addr list) \<times> heap" where
  "copy_fields h [] = (Inr [], h)"
| "copy_fields h (fa # fas) =
     (case Field_copy h fa of
        (Inl e, h1) \<Rightarrow> (Inl e, h1)
      | (Inr na, h1) \<Rightarrow>
          (case copy_fields h1 fas of
             (Inl e, h2) \<Rightarrow> (Inl e, h2)
           | (Inr nas, h2) \<Rightarrow> (Inr (na # nas), h2)))"

definition State_copy :: "heap \<Rightarrow> addr \<Rightarrow> (error + addr) \<times> heap" where
  "State_copy h sa =
     (case deref (state_objs h) sa of
        None \<Rightarrow> (Inl NullPointer, h)
      | Some s \<Rightarrow>
          (case (deref (double_cells h) (State_density s),
                 deref (double_cells h) (State_viscosity s),
                 deref (vector_cells h) (State_gravity s)) of
             (Some d, Some v, Some g) \<Rightarrow>
               (let h1 = h\<lparr>double_cells := double_cells h @ [d, v],
                            vector_cells := vector_cells h @ [g]\<rparr>
                in case copy_fields h1 (State_fields s) of
                     (Inl e, h2) \<Rightarrow> (Inl e, h)
                   | (Inr fas, h2) \<Rightarrow>
                       (Inr (length (state_objs h2)),
                        h2\<lparr>state_objs := state_objs h2 @
                             [\<lparr>State_mesh_maps = State_mesh_maps s,
                               State_parameter_list = [],
                               State_density = length (double_cells h),
                               State_viscosity = Suc (length (double_cells h)),
                               State_gravity = length (vector_cells h),
                               State_field_name_map = State_field_name_map s,
                               State_fields = fas,
                               State_time = State_time s,
                               State_cycle = State_cycle s,
                               State_status = State_status s\<rparr>]\<rparr>))
           | _ \<Rightarrow> (Inl NullPointer, h)))"

text \<open>
  \<open>State::operator=\<close>, State.cc lines 89-111. \<open>copy_double_cell h dst src\<close> is
  \<open>*dst = *src\<close> on doubles, \<open>copy_vector_cell\<close> the same on
  \<open>std::vector<double>\<close>; \<open>assign_fields\<close> is the loop.
\<close>

definition copy_double_cell :: "heap \<Rightarrow> addr \<Rightarrow> addr \<Rightarrow> error option \<times> heap" where
  "copy_double_cell h dst src =
     (case (deref (double_cells h) dst, deref (double_cells h) src) of
        (Some _, Some v) \<Rightarrow> (None, h\<lparr>double_cells := (double_cells h)[dst := v]\<rparr>)
      | _ \<Rightarrow> (Some NullPointer, h))"

definition copy_vector_cell :: "heap \<Rightarrow> addr \<Rightarrow> addr \<Rightarrow> error option \<times> heap" where
  "copy_vector_cell h dst src =
     (case (deref (vector_cells h) dst, deref (vector_cells h) src) of
        (Some _, Some v) \<Rightarrow> (None, h\<lparr>vector_cells := (vector_cells h)[dst := v]\<rparr>)
      | _ \<Rightarrow> (Some NullPointer, h))"

fun assign_fields :: "heap \<Rightarrow> (addr \<times> addr) list \<Rightarrow> error option \<times> heap" where
  "assign_fields h [] = (None, h)"
| "assign_fields h ((dst, src) # ps) = then_do (Field_assign h dst src) (\<lambda>h'. assign_fields h' ps)"

definition State_assign :: "heap \<Rightarrow> addr \<Rightarrow> addr \<Rightarrow> error option \<times> heap" where
  "State_assign h this sa =
     (case (deref (state_objs h) this, deref (state_objs h) sa) of
        (Some t, Some s) \<Rightarrow>
          if length (State_fields t) \<noteq> length (State_fields s) then (Some NonCompatibleStates, h)
          else if this \<noteq> sa then
            then_do (None, update_state h this (\<lambda>t. t\<lparr>State_mesh_maps := State_mesh_maps s\<rparr>)) (\<lambda>h.
            then_do (copy_double_cell h (State_density t) (State_density s)) (\<lambda>h.
            then_do (copy_double_cell h (State_viscosity t) (State_viscosity s)) (\<lambda>h.
            then_do (copy_vector_cell h (State_gravity t) (State_gravity s)) (\<lambda>h.
            then_do (None, update_state h this (\<lambda>t. t\<lparr>State_field_name_map := State_field_name_map s\<rparr>)) (\<lambda>h.
            then_do (assign_fields h (zip (State_fields t) (State_fields s))) (\<lambda>h.
            (None, update_state h this (\<lambda>t. t\<lparr>State_time := State_time s,
                                               State_cycle := State_cycle s,
                                               State_status := State_status s\<rparr>))))))))
          else (None, h)
      | _ \<Rightarrow> (Some NullPointer, h))"

text \<open>\<open>State::check_all_initialized\<close>, State.cc lines 120-126.\<close>

fun all_initialized :: "heap \<Rightarrow> addr list \<Rightarrow> error + bool" where
  "all_initialized h [] = Inr True"
| "all_initialized h (fa # fas) =
     (case deref (field_objs h) fa of
        None \<Rightarrow> Inl NullPointer
      | Some f \<Rightarrow> if \<not> Field_initialized f then Inr False else all_initialized h fas)"

definition check_all_initialized :: "heap \<Rightarrow> addr \<Rightarrow> error + bool" where
  "check_all_initialized h this =
     (case deref (state_objs h) this of
        None \<Rightarrow> Inl NullPointer
      | Some s \<Rightarrow> all_initialized h (State_fields s))"

text \<open>
  \<open>State::require_field\<close>, State.cc lines 234-273. The three fatal branches throw
  before anything is written.
\<close>

definition require_field :: "heap \<Rightarrow> addr \<Rightarrow> string \<Rightarrow> FieldLocation \<Rightarrow> string \<Rightarrow> int \<Rightarrow> error option \<times> heap" where
  "require_field h this fieldname location owner num_dofs =
     (case deref (state_objs h) this of
        None \<Rightarrow> (Some NullPointer, h)
      | Some s \<Rightarrow>
          if State_field_name_map s fieldname = None then
            (let (h1, fa) = Field_new h fieldname location (State_mesh_maps s) owner num_dofs
             in (None, update_state h1 this (\<lambda>s. s\<lparr>
                   State_field_name_map := (State_field_name_map s)(fieldname \<mapsto> length (State_fields s)),
                   State_fields := State_fields s @ [fa]\<rparr>)))
          else
            (case get_field_record h this fieldname of
               Inl e \<Rightarrow> (Some e, h)
             | Inr fa \<Rightarrow>
                 (case deref (field_objs h) fa of
                    None \<Rightarrow> (Some NullPointer, h)
                  | Some f \<Rightarrow>
                      if Field_owner f = ''state'' then
                        if location = Field_location f then Field_set_owner h fa owner
                        else (Some LocationConflict, h)
                      else if owner = ''state'' then
                        if location \<noteq> Field_location f then (Some LocationConflict, h)
                        else (None, h)
                      else (Some AlreadyOwned, h))))"

text \<open>The accessors and setters, State.cc lines 275-345: each delegates to the Field.\<close>

definition get_field :: "heap \<Rightarrow> addr \<Rightarrow> string \<Rightarrow> error + addr option" where
  "get_field h this fieldname =
     (case get_field_record h this fieldname of
        Inl e \<Rightarrow> Inl e
      | Inr fa \<Rightarrow> Field_get_data h fa)"

definition get_field_mutable :: "heap \<Rightarrow> addr \<Rightarrow> string \<Rightarrow> string \<Rightarrow> error + addr option" where
  "get_field_mutable h this fieldname pk_name =
     (case get_field_record h this fieldname of
        Inl e \<Rightarrow> Inl e
      | Inr fa \<Rightarrow> Field_get_data_mutable h fa pk_name)"

definition set_field_pointer :: "heap \<Rightarrow> addr \<Rightarrow> string \<Rightarrow> string \<Rightarrow> addr option \<Rightarrow> error option \<times> heap" where
  "set_field_pointer h this fieldname pk_name data =
     (case get_field_record h this fieldname of
        Inl e \<Rightarrow> (Some e, h)
      | Inr fa \<Rightarrow> Field_set_data_pointer h fa pk_name data)"

definition set_field_multivector :: "heap \<Rightarrow> addr \<Rightarrow> string \<Rightarrow> string \<Rightarrow> MultiVector \<Rightarrow> error option \<times> heap" where
  "set_field_multivector h this fieldname pk_name data =
     (case get_field_record h this fieldname of
        Inl e \<Rightarrow> (Some e, h)
      | Inr fa \<Rightarrow> Field_set_data_multivector h fa pk_name data)"

definition set_field_vector :: "heap \<Rightarrow> addr \<Rightarrow> string \<Rightarrow> string \<Rightarrow> double list \<Rightarrow> error option \<times> heap" where
  "set_field_vector h this fieldname pk_name data =
     (case get_field_record h this fieldname of
        Inl e \<Rightarrow> (Some e, h)
      | Inr fa \<Rightarrow> Field_set_data_vector h fa pk_name data)"

definition set_field_array :: "heap \<Rightarrow> addr \<Rightarrow> string \<Rightarrow> string \<Rightarrow> double list \<Rightarrow> error option \<times> heap" where
  "set_field_array h this fieldname pk_name u =
     (case get_field_record h this fieldname of
        Inl e \<Rightarrow> (Some e, h)
      | Inr fa \<Rightarrow> Field_set_data_array h fa pk_name u)"

definition set_field_scalar :: "heap \<Rightarrow> addr \<Rightarrow> string \<Rightarrow> string \<Rightarrow> double \<Rightarrow> error option \<times> heap" where
  "set_field_scalar h this fieldname pk_name u =
     (case get_field_record h this fieldname of
        Inl e \<Rightarrow> (Some e, h)
      | Inr fa \<Rightarrow> Field_set_data_scalar h fa pk_name u)"

definition set_field_array_block :: "heap \<Rightarrow> addr \<Rightarrow> string \<Rightarrow> string \<Rightarrow> double list \<Rightarrow> int \<Rightarrow> error option \<times> heap" where
  "set_field_array_block h this fieldname pk_name u mesh_block_id =
     (case get_field_record h this fieldname of
        Inl e \<Rightarrow> (Some e, h)
      | Inr fa \<Rightarrow> Field_set_data_array_block h fa pk_name u mesh_block_id)"

definition set_field_scalar_block :: "heap \<Rightarrow> addr \<Rightarrow> string \<Rightarrow> string \<Rightarrow> double \<Rightarrow> int \<Rightarrow> error option \<times> heap" where
  "set_field_scalar_block h this fieldname pk_name u mesh_block_id =
     (case get_field_record h this fieldname of
        Inl e \<Rightarrow> (Some e, h)
      | Inr fa \<Rightarrow> Field_set_data_scalar_block h fa pk_name u mesh_block_id)"

definition set_vector_field :: "heap \<Rightarrow> addr \<Rightarrow> string \<Rightarrow> string \<Rightarrow> double list \<Rightarrow> int \<Rightarrow> error option \<times> heap" where
  "set_vector_field h this fieldname pk_name u mesh_block_id =
     (case get_field_record h this fieldname of
        Inl e \<Rightarrow> (Some e, h)
      | Inr fa \<Rightarrow> Field_set_vector_data h fa pk_name u mesh_block_id)"

definition set_subfield_names :: "heap \<Rightarrow> addr \<Rightarrow> string \<Rightarrow> string list \<Rightarrow> error option \<times> heap" where
  "set_subfield_names h this fieldname subfield_names =
     (case get_field_record h this fieldname of
        Inl e \<Rightarrow> (Some e, h)
      | Inr fa \<Rightarrow> Field_set_subfield_names h fa subfield_names)"

definition set_double_cell :: "heap \<Rightarrow> addr \<Rightarrow> double \<Rightarrow> error option \<times> heap" where
  "set_double_cell h a v =
     (case deref (double_cells h) a of
        None \<Rightarrow> (Some NullPointer, h)
      | Some _ \<Rightarrow> (None, h\<lparr>double_cells := (double_cells h)[a := v]\<rparr>))"

definition set_density :: "heap \<Rightarrow> addr \<Rightarrow> double \<Rightarrow> error option \<times> heap" where
  "set_density h this wd =
     (case deref (state_objs h) this of
        None \<Rightarrow> (Some NullPointer, h)
      | Some s \<Rightarrow> set_double_cell h (State_density s) wd)"

definition set_viscosity :: "heap \<Rightarrow> addr \<Rightarrow> double \<Rightarrow> error option \<times> heap" where
  "set_viscosity h this mu =
     (case deref (state_objs h) this of
        None \<Rightarrow> (Some NullPointer, h)
      | Some s \<Rightarrow> set_double_cell h (State_viscosity s) mu)"

text \<open>
  \<open>set_gravity(const double g[3])\<close> writes three entries of the vector behind
  \<open>gravity_\<close>; \<open>set_gravity(const std::vector<double> g)\<close> replaces the vector.
\<close>

definition set_gravity_array :: "heap \<Rightarrow> addr \<Rightarrow> double list \<Rightarrow> error option \<times> heap" where
  "set_gravity_array h this g =
     (case deref (state_objs h) this of
        None \<Rightarrow> (Some NullPointer, h)
      | Some s \<Rightarrow>
          (case deref (vector_cells h) (State_gravity s) of
             None \<Rightarrow> (Some NullPointer, h)
           | Some v \<Rightarrow>
               if length v < 3 \<or> length g < 3 then (Some OutOfBounds, h)
               else (None, h\<lparr>vector_cells := (vector_cells h)
                                [State_gravity s := v[0 := g ! 0, 1 := g ! 1, 2 := g ! 2]]\<rparr>)))"

definition set_gravity_vector :: "heap \<Rightarrow> addr \<Rightarrow> double list \<Rightarrow> error option \<times> heap" where
  "set_gravity_vector h this g =
     (case deref (state_objs h) this of
        None \<Rightarrow> (Some NullPointer, h)
      | Some s \<Rightarrow>
          (case deref (vector_cells h) (State_gravity s) of
             None \<Rightarrow> (Some NullPointer, h)
           | Some _ \<Rightarrow> (None, h\<lparr>vector_cells := (vector_cells h)[State_gravity s := g]\<rparr>)))"

text \<open>
  \<open>State::initialize_from_parameter_list\<close>, State.cc lines 130-232 (the output to
  \<open>std::cout\<close> is left out). \<open>read_constants\<close> is the inner loop over the subfield
  names, lines 155-165 and 194-205: \<open>Inr (Some u)\<close> when it ends with \<open>got_them_all\<close>
  true and the values \<open>u\<close>, \<open>Inr None\<close> when it breaks at a missing name, \<open>Inl\<close> when
  \<open>get<double>\<close> throws.
\<close>

fun read_constants :: "ParameterList \<Rightarrow> string list \<Rightarrow> error + double list option" where
  "read_constants pl [] = Inr (Some [])"
| "read_constants pl (name # names) =
     (if isParameter pl (''Constant '' @ name) then
        (case get_double pl (''Constant '' @ name) of
           Inl e \<Rightarrow> Inl e
         | Inr v \<Rightarrow>
             (case read_constants pl names of
                Inl e \<Rightarrow> Inl e
              | Inr None \<Rightarrow> Inr None
              | Inr (Some vs) \<Rightarrow> Inr (Some (v # vs))))
      else Inr None)"

text \<open>The body of the loop over the fields of the global pass, lines 151-173.\<close>

definition init_field_global :: "ParameterList \<Rightarrow> heap \<Rightarrow> addr \<Rightarrow> error option \<times> heap" where
  "init_field_global pl h fa =
     (case deref (field_objs h) fa of
        None \<Rightarrow> (Some NullPointer, h)
      | Some f \<Rightarrow>
          if Field_location f = FIELD_LOCATION_CELL then
            if int (length (Field_subfield_names f)) = Field_num_dofs f then
              (case read_constants pl (Field_subfield_names f) of
                 Inl e \<Rightarrow> (Some e, h)
               | Inr None \<Rightarrow> (None, h)
               | Inr (Some u) \<Rightarrow>
                   then_do (Field_set_data_array h fa (Field_owner f) u) (\<lambda>h.
                   Field_set_initialized h fa))
            else (None, h)
          else (None, h))"

text \<open>The body of the loop over the fields of a block pass, lines 187-229.\<close>

definition init_field_block :: "ParameterList \<Rightarrow> int \<Rightarrow> heap \<Rightarrow> addr \<Rightarrow> error option \<times> heap" where
  "init_field_block sub mesh_block_id h fa =
     (case deref (field_objs h) fa of
        None \<Rightarrow> (Some NullPointer, h)
      | Some f \<Rightarrow>
          if Field_location f = FIELD_LOCATION_CELL then
            if int (length (Field_subfield_names f)) = Field_num_dofs f then
              (case read_constants sub (Field_subfield_names f) of
                 Inl e \<Rightarrow> (Some e, h)
               | Inr None \<Rightarrow> (None, h)
               | Inr (Some u) \<Rightarrow>
                   then_do (Field_set_data_array_block h fa (Field_owner f) u mesh_block_id) (\<lambda>h.
                   Field_set_initialized h fa))
            else (None, h)
          else if Field_location f = FIELD_LOCATION_FACE then
            if 1 = Field_num_dofs f then
              if isParameter sub (''Constant '' @ Field_fieldname f @ '' x'') then
                (case get_double sub (''Constant '' @ Field_fieldname f @ '' x'') of
                   Inl e \<Rightarrow> (Some e, h)
                 | Inr ux \<Rightarrow>
                (case get_double sub (''Constant '' @ Field_fieldname f @ '' y'') of
                   Inl e \<Rightarrow> (Some e, h)
                 | Inr uy \<Rightarrow>
                (case get_double sub (''Constant '' @ Field_fieldname f @ '' z'') of
                   Inl e \<Rightarrow> (Some e, h)
                 | Inr uz \<Rightarrow>
                     then_do (Field_set_vector_data h fa (Field_owner f) [ux, uy, uz] mesh_block_id) (\<lambda>h.
                     Field_set_initialized h fa))))
              else (None, h)
            else (None, h)
          else (None, h))"

text \<open>The decimal digits \<open>operator<<\<close> writes for a block number.\<close>

function string_of_nat :: "nat \<Rightarrow> string" where
  "string_of_nat n =
     (if n < 10 then [''0123456789'' ! n]
      else string_of_nat (n div 10) @ [''0123456789'' ! (n mod 10)])"
  by pat_completeness auto
termination
  by (relation "measure id") auto

declare string_of_nat.simps [simp del]

text \<open>One turn of the loop over the mesh blocks, lines 178-230.\<close>

definition init_block :: "heap \<Rightarrow> addr \<Rightarrow> int \<Rightarrow> error option \<times> heap" where
  "init_block h this nb =
     (case deref (state_objs h) this of
        None \<Rightarrow> (Some NullPointer, h)
      | Some s \<Rightarrow>
          (case sublist_of (State_parameter_list s) (''Mesh block '' @ string_of_nat (nat nb)) of
             Inl e \<Rightarrow> (Some e, h)
           | Inr (sub, pl') \<Rightarrow>
               (let h1 = update_state h this (\<lambda>s. s\<lparr>State_parameter_list := pl'\<rparr>)
                in case get_int sub ''Mesh block ID'' of
                     Inl e \<Rightarrow> (Some e, h1)
                   | Inr mesh_block_id \<Rightarrow>
                       for_each (init_field_block sub mesh_block_id) h1 (State_fields s))))"

fun init_blocks :: "heap \<Rightarrow> addr \<Rightarrow> int list \<Rightarrow> error option \<times> heap" where
  "init_blocks h this [] = (None, h)"
| "init_blocks h this (nb # nbs) = then_do (init_block h this nb) (\<lambda>h'. init_blocks h' this nbs)"

definition initialize_from_parameter_list :: "heap \<Rightarrow> addr \<Rightarrow> error option \<times> heap" where
  "initialize_from_parameter_list h this =
     (case deref (state_objs h) this of
        None \<Rightarrow> (Some NullPointer, h)
      | Some s \<Rightarrow>
          (let pl = State_parameter_list s in
           case get_double pl ''Gravity x'' of Inl e \<Rightarrow> (Some e, h) | Inr gx \<Rightarrow>
           (case get_double pl ''Gravity y'' of Inl e \<Rightarrow> (Some e, h) | Inr gy \<Rightarrow>
           (case get_double pl ''Gravity z'' of Inl e \<Rightarrow> (Some e, h) | Inr gz \<Rightarrow>
             then_do (set_gravity_array h this [gx, gy, gz]) (\<lambda>h.
             then_do (if isParameter pl ''Constant water density'' then
                        (case get_double pl ''Constant water density'' of
                           Inl e \<Rightarrow> (Some e, h)
                         | Inr u \<Rightarrow> set_density h this u)
                      else (None, h)) (\<lambda>h.
             then_do (if isParameter pl ''Constant viscosity'' then
                        (case get_double pl ''Constant viscosity'' of
                           Inl e \<Rightarrow> (Some e, h)
                         | Inr u \<Rightarrow> set_viscosity h this u)
                      else (None, h)) (\<lambda>h.
             then_do (for_each (init_field_global pl) h (State_fields s)) (\<lambda>h.
             (case get_int pl ''Number of mesh blocks'' of
                Inl e \<Rightarrow> (Some e, h)
              | Inr num_blocks \<Rightarrow> init_blocks h this [1..num_blocks])))))))))"

definition initialize :: "heap \<Rightarrow> addr \<Rightarrow> error option \<times> heap" where
  "initialize h this = initialize_from_parameter_list h this"

section \<open>WeakMPC\<close>

text \<open>
  A sub-PK is known to the controller through its virtual \<open>advance(dt)\<close> only (pk.hh and
  MPC.hh are absent): \<open>PK_advance\<close> is what the call does to the world \<open>'w\<close> the PKs
  share (the registry among it) and the failure flag it returns. \<open>PK_name\<close> labels the
  PK in the record of calls, which the embedding keeps beside the world: every call of
  \<open>(*pk)->advance(dt)\<close> appends the PK, the step and the flag returned.
\<close>

record 'w PK =
  PK_name :: string
  PK_advance :: "double \<Rightarrow> 'w \<Rightarrow> bool \<times> 'w"

record 'w WeakMPC =
  MPC_sub_pks :: "'w PK list"

type_synonym call_record = "(string \<times> double \<times> bool) list"

text \<open>
  \<open>WeakMPC::advance\<close>, WeakMPC.cc lines 29-39: \<open>advance_loop\<close> is the loop from the
  iterator's position on, with the local variable \<open>fail\<close>.
\<close>

fun advance_loop :: "'w PK list \<Rightarrow> double \<Rightarrow> bool \<Rightarrow> 'w \<times> call_record \<Rightarrow> bool \<times> 'w \<times> call_record" where
  "advance_loop [] dt fail (w, calls) = (fail, w, calls)"
| "advance_loop (pk # pks) dt fail (w, calls) =
     (case PK_advance pk dt w of
        (fail', w') \<Rightarrow>
          if fail' then (fail', w', calls @ [(PK_name pk, dt, fail')])
          else advance_loop pks dt fail' (w', calls @ [(PK_name pk, dt, fail')]))"

definition advance :: "'w WeakMPC \<Rightarrow> double \<Rightarrow> 'w \<times> call_record \<Rightarrow> bool \<times> 'w \<times> call_record" where
  "advance mpc dt wc = advance_loop (MPC_sub_pks mpc) dt False wc"

text \<open>
  What the claims about \<open>advance\<close> speak of: \<open>world_after ps dt w\<close> is the world
  after the PKs \<open>ps\<close> advanced in order from \<open>w\<close>, and \<open>all_succeed ps dt w\<close> says that
  none of them reported failure, each run in the world its predecessors left.
\<close>

fun world_after :: "'w PK list \<Rightarrow> double \<Rightarrow> 'w \<Rightarrow> 'w" where
  "world_after [] dt w = w"
| "world_after (pk # pks) dt w = world_after pks dt (snd (PK_advance pk dt w))"

fun all_succeed :: "'w PK list \<Rightarrow> double \<Rightarrow> 'w \<Rightarrow> bool" where
  "all_succeed [] dt w = True"
| "all_succeed (pk # pks) dt w =
     (\<not> fst (PK_advance pk dt w) \<and> all_succeed pks dt (snd (PK_advance pk dt w)))"


section \<open>What the claims speak of\<close>

text \<open>
  The recorded owner, the location and the buffer contents of the field a registry knows
  under a name, read through \<open>get_field_record\<close> as State.cc does.
\<close>

definition field_owner :: "heap \<Rightarrow> addr \<Rightarrow> string \<Rightarrow> string option" where
  "field_owner h this fieldname =
     (case get_field_record h this fieldname of
        Inl e \<Rightarrow> None
      | Inr fa \<Rightarrow> map_option Field_owner (deref (field_objs h) fa))"

definition field_location :: "heap \<Rightarrow> addr \<Rightarrow> string \<Rightarrow> FieldLocation option" where
  "field_location h this fieldname =
     (case get_field_record h this fieldname of
        Inl e \<Rightarrow> None
      | Inr fa \<Rightarrow> map_option Field_location (deref (field_objs h) fa))"

definition field_values :: "heap \<Rightarrow> addr \<Rightarrow> string \<Rightarrow> MultiVector option" where
  "field_values h this fieldname =
     (case get_field h this fieldname of
        Inl e \<Rightarrow> None
      | Inr data \<Rightarrow> deref_rcp (multivectors h) data)"

text \<open>
  The invariant of section 3 for the registry at address \<open>sa\<close>: every name of the map
  maps to a valid index into \<open>fields_\<close> whose Field carries that name, and every index of
  \<open>fields_\<close> is the image of exactly one name.
\<close>

definition registry_consistent :: "heap \<Rightarrow> addr \<Rightarrow> bool" where
  "registry_consistent h sa =
     (case deref (state_objs h) sa of
        None \<Rightarrow> False
      | Some s \<Rightarrow>
          (\<forall>name i. State_field_name_map s name = Some i \<longrightarrow>
              i < length (State_fields s) \<and>
              (\<exists>f. deref (field_objs h) (State_fields s ! i) = Some f \<and> Field_fieldname f = name)) \<and>
          (\<forall>i < length (State_fields s). \<exists>!name. State_field_name_map s name = Some i))"



text \<open>A sequence of \<open>require_field\<close> calls on one registry; a fatal error ends it.\<close>

fun require_fields :: "heap \<Rightarrow> addr \<Rightarrow> (string \<times> FieldLocation \<times> string \<times> int) list \<Rightarrow> error option \<times> heap" where
  "require_fields h this [] = (None, h)"
| "require_fields h this ((fieldname, location, owner, num_dofs) # calls) =
     then_do (require_field h this fieldname location owner num_dofs)
       (\<lambda>h'. require_fields h' this calls)"

text \<open>
  The operations of a registry that write, as values, and the call of one on the registry
  at \<open>this\<close>.
\<close>

datatype registry_op =
    RequireField string FieldLocation string int
  | Assign addr
  | Initialize
  | SetFieldPointer string string "addr option"
  | SetFieldMultiVector string string MultiVector
  | SetFieldVector string string "double list"
  | SetFieldArray string string "double list"
  | SetFieldScalar string string double
  | SetFieldArrayBlock string string "double list" int
  | SetFieldScalarBlock string string double int
  | SetVectorField string string "double list" int
  | SetSubfieldNames string "string list"
  | SetDensity double
  | SetViscosity double
  | SetGravityArray "double list"
  | SetGravityVector "double list"

fun apply_op :: "heap \<Rightarrow> addr \<Rightarrow> registry_op \<Rightarrow> error option \<times> heap" where
  "apply_op h this (RequireField fieldname location owner num_dofs) =
     require_field h this fieldname location owner num_dofs"
| "apply_op h this (Assign sa) = State_assign h this sa"
| "apply_op h this Initialize = initialize h this"
| "apply_op h this (SetFieldPointer fieldname pk_name data) = set_field_pointer h this fieldname pk_name data"
| "apply_op h this (SetFieldMultiVector fieldname pk_name data) = set_field_multivector h this fieldname pk_name data"
| "apply_op h this (SetFieldVector fieldname pk_name data) = set_field_vector h this fieldname pk_name data"
| "apply_op h this (SetFieldArray fieldname pk_name u) = set_field_array h this fieldname pk_name u"
| "apply_op h this (SetFieldScalar fieldname pk_name u) = set_field_scalar h this fieldname pk_name u"
| "apply_op h this (SetFieldArrayBlock fieldname pk_name u mesh_block_id) =
     set_field_array_block h this fieldname pk_name u mesh_block_id"
| "apply_op h this (SetFieldScalarBlock fieldname pk_name u mesh_block_id) =
     set_field_scalar_block h this fieldname pk_name u mesh_block_id"
| "apply_op h this (SetVectorField fieldname pk_name u mesh_block_id) =
     set_vector_field h this fieldname pk_name u mesh_block_id"
| "apply_op h this (SetSubfieldNames fieldname subfield_names) = set_subfield_names h this fieldname subfield_names"
| "apply_op h this (SetDensity wd) = set_density h this wd"
| "apply_op h this (SetViscosity mu) = set_viscosity h this mu"
| "apply_op h this (SetGravityArray g) = set_gravity_array h this g"
| "apply_op h this (SetGravityVector g) = set_gravity_vector h this g"

text \<open>
  A small mesh (two entities of every kind, entity 1 in block 7) and an empty store, for
  the examples.
\<close>

definition demo_mesh :: Mesh where
  "demo_mesh = \<lparr>count_entities = (\<lambda>_. 2),
                 block_entities = (\<lambda>b _. if b = 7 then [1] else []),
                 vector_component = (\<lambda>_ _ u. u ! 0)\<rparr>"

definition empty_heap :: heap where
  "empty_heap = \<lparr>state_objs = [], field_objs = [], multivectors = [],
                  double_cells = [], vector_cells = []\<rparr>"

text \<open>
  The part of a store the invariant reads: the names the Field objects carry, and the
  name map and the Field pointers of every registry.
\<close>

definition schema_of :: "heap \<Rightarrow> string list \<times> ((string \<rightharpoonup> nat) \<times> addr list) list" where
  "schema_of h =
     (map Field_fieldname (field_objs h),
      map (\<lambda>s. (State_field_name_map s, State_fields s)) (state_objs h))"

text \<open>
  A registry at address 0 of an otherwise empty store, and the store after it registered
  one field for "state" and one for the PK "energy".
\<close>

definition demo_registry :: heap where
  "demo_registry = fst (State_new empty_heap [] demo_mesh (0, 0, 0, 0, 0))"

definition demo_two_fields :: heap where
  "demo_two_fields = snd (require_fields demo_registry 0
      [(''pressure'', FIELD_LOCATION_CELL, ''state'', 1),
       (''temperature'', FIELD_LOCATION_CELL, ''energy'', 1)])"

text \<open>
  The same store with both fields marked initialized; with a copy of the registry made at
  address 1; and with a third field registered in the original after the copy was made.
\<close>

definition demo_initialized :: heap where
  "demo_initialized = snd (Field_set_initialized (snd (Field_set_initialized demo_two_fields 0)) 1)"

definition demo_snapshot :: heap where
  "demo_snapshot = snd (State_copy demo_two_fields 0)"

definition demo_grown :: heap where
  "demo_grown = snd (require_field demo_snapshot 0 ''saturation'' FIELD_LOCATION_CELL ''flow'' 1)"

text \<open>
  Two registries with one field each, of different names and locations: the registry at
  address 1 is a copy of the empty one.
\<close>

definition demo_mismatch :: heap where
  "demo_mismatch =
     snd (require_field
            (snd (require_field (snd (State_copy demo_registry 0))
                    0 ''pressure'' FIELD_LOCATION_CELL ''flow'' 1))
            1 ''velocity'' FIELD_LOCATION_FACE ''state'' 1)"

text \<open>An outcome that is a normal return or the dereference of a null pointer.\<close>

definition only_null :: "error option \<times> heap \<Rightarrow> bool" where
  "only_null r = (fst r = None \<or> fst r = Some NullPointer)"

text \<open>
  Which cells a call may have written: \<open>unchanged_outside h h' S F M\<close> says that the
  store \<open>h'\<close> has every cell of \<open>h\<close>, and the same contents in every State object
  outside \<open>S\<close>, every Field object outside \<open>F\<close> and every buffer outside \<open>M\<close>.
  \<open>same_pointers h h'\<close> says that no State or Field object was allocated, no registry
  changed its vector of Field pointers and no Field the pointer to its buffer.
\<close>

definition unchanged_outside :: "heap \<Rightarrow> heap \<Rightarrow> addr set \<Rightarrow> addr set \<Rightarrow> addr set \<Rightarrow> bool" where
  "unchanged_outside h h' S F M =
     (length (state_objs h) \<le> length (state_objs h') \<and>
      (\<forall>x < length (state_objs h). x \<notin> S \<longrightarrow> state_objs h' ! x = state_objs h ! x) \<and>
      length (field_objs h) \<le> length (field_objs h') \<and>
      (\<forall>x < length (field_objs h). x \<notin> F \<longrightarrow> field_objs h' ! x = field_objs h ! x) \<and>
      length (multivectors h) \<le> length (multivectors h') \<and>
      (\<forall>x < length (multivectors h). x \<notin> M \<longrightarrow> multivectors h' ! x = multivectors h ! x))"

definition same_pointers :: "heap \<Rightarrow> heap \<Rightarrow> bool" where
  "same_pointers h h' =
     (length (state_objs h') = length (state_objs h) \<and>
      (\<forall>x < length (state_objs h). State_fields (state_objs h' ! x) = State_fields (state_objs h ! x)) \<and>
      length (field_objs h') = length (field_objs h) \<and>
      (\<forall>x < length (field_objs h). Field_data (field_objs h' ! x) = Field_data (field_objs h ! x)))"

text \<open>
  The Field objects of a registry and the buffers they point to: what a call on the
  registry may write, and what \<open>get_field\<close> on it reads.
\<close>

definition fields_of :: "heap \<Rightarrow> addr \<Rightarrow> addr set" where
  "fields_of h sa = (case deref (state_objs h) sa of None \<Rightarrow> {} | Some s \<Rightarrow> set (State_fields s))"

definition buffer_of :: "heap \<Rightarrow> addr \<Rightarrow> addr set" where
  "buffer_of h fa =
     (case deref (field_objs h) fa of
        None \<Rightarrow> {}
      | Some f \<Rightarrow> (case Field_data f of None \<Rightarrow> {} | Some d \<Rightarrow> {d}))"

definition buffers_of :: "heap \<Rightarrow> addr \<Rightarrow> addr set" where
  "buffers_of h sa = (\<Union>fa \<in> fields_of h sa. buffer_of h fa)"

text \<open>
  A reference-counted pointer never dangles: the buffer pointers of the registry's Fields
  are null or point to an allocated buffer.
\<close>

definition buffers_allocated :: "heap \<Rightarrow> addr \<Rightarrow> bool" where
  "buffers_allocated h sa = (\<forall>d \<in> buffers_of h sa. d < length (multivectors h))"

text \<open>
  A call on the registry at \<open>this\<close> that allocates nothing and redirects no pointer
  writes its own State object, its own Field objects and their buffers only.
\<close>

definition writes_own :: "addr \<Rightarrow> heap \<Rightarrow> heap \<Rightarrow> bool" where
  "writes_own this h h' =
     (unchanged_outside h h' {this} (fields_of h this) (buffers_of h this) \<and> same_pointers h h')"

text \<open>
  What a Field is at a moment: its attributes and the contents of its buffer.
\<close>

definition field_snapshot :: "heap \<Rightarrow> addr \<Rightarrow> (Field \<times> MultiVector option) option" where
  "field_snapshot h fa =
     (case deref (field_objs h) fa of
        None \<Rightarrow> None
      | Some f \<Rightarrow> Some (f, deref_rcp (multivectors h) (Field_data f)))"

text \<open>
  The registry of two fields with the degrees of freedom named, and a parameter list that
  has a constant for "Pressure" and none for "Temperature".
\<close>

definition demo_named :: heap where
  "demo_named =
     snd (set_subfield_names (snd (set_subfield_names demo_two_fields 0 ''pressure'' [''Pressure'']))
            0 ''temperature'' [''Temperature''])"

definition demo_constants :: ParameterList where
  "demo_constants = [(''Constant Pressure'', PDouble 5)]"

section \<open>The store and the invariant\<close>

lemma deref_rcp_simps [simp]:
  "deref_rcp store None = None"
  "deref_rcp store (Some a) = deref store a"
  by (simp_all add: deref_rcp_def)

lemma deref_Some_iff: "deref xs a = Some v \<longleftrightarrow> a < length xs \<and> xs ! a = v"
  by (auto simp: deref_def)

lemma deref_None_iff: "deref xs a = None \<longleftrightarrow> \<not> a < length xs"
  by (simp add: deref_def)

lemma get_field_record_Inr_iff:
  "get_field_record h this n = Inr fa \<longleftrightarrow>
   (\<exists>s i. deref (state_objs h) this = Some s \<and> State_field_name_map s n = Some i \<and>
          i < length (State_fields s) \<and> State_fields s ! i = fa)"
  by (auto simp: get_field_record_def split: option.splits)

lemma consistent_record:
  assumes "registry_consistent h this" and "get_field_record h this n = Inr fa"
  shows "\<exists>f. deref (field_objs h) fa = Some f \<and> Field_fieldname f = n"
  using assms unfolding registry_consistent_def get_field_record_Inr_iff
  by (auto split: option.splits)

lemma consistent_registered:
  assumes "registry_consistent h this" and "deref (state_objs h) this = Some s"
    and "State_field_name_map s n = Some i"
  shows "get_field_record h this n = Inr (State_fields s ! i)"
  using assms unfolding registry_consistent_def get_field_record_def
  by (auto split: option.splits)

lemma field_owner_None_iff:
  assumes "registry_consistent h this" and "deref (state_objs h) this = Some s"
  shows "field_owner h this n = None \<longleftrightarrow> State_field_name_map s n = None"
proof (cases "State_field_name_map s n")
  case None
  then show ?thesis using assms(2) by (simp add: field_owner_def get_field_record_def)
next
  case (Some i)
  from consistent_registered [OF assms Some] consistent_record [OF assms(1)]
  show ?thesis using Some by (auto simp: field_owner_def)
qed

lemma require_field_new:
  assumes "deref (state_objs h) this = Some s" and "State_field_name_map s n = None"
  shows "require_field h this n loc own nd =
     (None, update_state (fst (Field_new h n loc (State_mesh_maps s) own nd)) this
        (\<lambda>s. s\<lparr>State_field_name_map := (State_field_name_map s)(n \<mapsto> length (State_fields s)),
               State_fields := State_fields s @ [length (field_objs h)]\<rparr>))"
  using assms by (simp add: require_field_def Field_new_def Let_def)

lemma require_field_existing:
  assumes "get_field_record h this n = Inr fa" and "deref (field_objs h) fa = Some f"
  shows "require_field h this n loc own nd =
     (if Field_owner f = ''state'' then
        if loc = Field_location f then (None, update_field h fa (\<lambda>f. f\<lparr>Field_owner := own\<rparr>))
        else (Some LocationConflict, h)
      else if own = ''state'' then
        if loc \<noteq> Field_location f then (Some LocationConflict, h) else (None, h)
      else (Some AlreadyOwned, h))"
  using assms unfolding get_field_record_Inr_iff
  by (auto simp: require_field_def get_field_record_def Field_set_owner_def)

lemma schema_of_eqD:
  assumes "schema_of h' = schema_of h"
  shows "length (field_objs h') = length (field_objs h)"
    and "length (state_objs h') = length (state_objs h)"
    and "fa < length (field_objs h) \<Longrightarrow> Field_fieldname (field_objs h' ! fa) = Field_fieldname (field_objs h ! fa)"
    and "sa < length (state_objs h) \<Longrightarrow> State_field_name_map (state_objs h' ! sa) = State_field_name_map (state_objs h ! sa)"
    and "sa < length (state_objs h) \<Longrightarrow> State_fields (state_objs h' ! sa) = State_fields (state_objs h ! sa)"
proof -
  from assms have n: "map Field_fieldname (field_objs h') = map Field_fieldname (field_objs h)"
    and m: "map (\<lambda>s. (State_field_name_map s, State_fields s)) (state_objs h') =
            map (\<lambda>s. (State_field_name_map s, State_fields s)) (state_objs h)"
    by (simp_all add: schema_of_def)
  from n show lf: "length (field_objs h') = length (field_objs h)"
    by (rule map_eq_imp_length_eq)
  from m show ls: "length (state_objs h') = length (state_objs h)"
    by (rule map_eq_imp_length_eq)
  show "Field_fieldname (field_objs h' ! fa) = Field_fieldname (field_objs h ! fa)"
    if "fa < length (field_objs h)"
    using that lf nth_map [of fa "field_objs h'" Field_fieldname]
      nth_map [of fa "field_objs h" Field_fieldname] n by simp
  have pair: "(State_field_name_map (state_objs h' ! sa), State_fields (state_objs h' ! sa)) =
      (State_field_name_map (state_objs h ! sa), State_fields (state_objs h ! sa))"
    if "sa < length (state_objs h)"
    using that ls nth_map [of sa "state_objs h'" "\<lambda>s. (State_field_name_map s, State_fields s)"]
      nth_map [of sa "state_objs h" "\<lambda>s. (State_field_name_map s, State_fields s)"] m by simp
  show "State_field_name_map (state_objs h' ! sa) = State_field_name_map (state_objs h ! sa)"
    if "sa < length (state_objs h)" using pair [OF that] by simp
  show "State_fields (state_objs h' ! sa) = State_fields (state_objs h ! sa)"
    if "sa < length (state_objs h)" using pair [OF that] by simp
qed

lemma registry_consistent_schema:
  assumes "schema_of h' = schema_of h"
  shows "registry_consistent h' sa = registry_consistent h sa"
proof (cases "sa < length (state_objs h)")
  case False
  then show ?thesis using schema_of_eqD(2) [OF assms]
    by (simp add: registry_consistent_def deref_def)
next
  case True
  note d = schema_of_eqD [OF assms]
  have names: "(\<exists>f. deref (field_objs h') a = Some f \<and> Field_fieldname f = n) =
               (\<exists>f. deref (field_objs h) a = Some f \<and> Field_fieldname f = n)" for a n
    using d(1) d(3) [of a] by (auto simp: deref_def)
  have st: "deref (state_objs h') sa = Some (state_objs h' ! sa)"
    "deref (state_objs h) sa = Some (state_objs h ! sa)"
    using True d(2) by (simp_all add: deref_def)
  show ?thesis
    using d(4) [OF True] d(5) [OF True]
    by (simp add: registry_consistent_def st names)
qed


lemma map_update_same:
  "f y = f (xs ! i) \<Longrightarrow> map f (xs[i := y]) = map f xs"
  by (simp add: map_update list_update_same_conv nth_map) (metis list_update_beyond list_update_id map_update not_le_imp_less nth_map)

lemma schema_update_field:
  "Field_fieldname (g (field_objs h ! fa)) = Field_fieldname (field_objs h ! fa) \<Longrightarrow>
   schema_of (update_field h fa g) = schema_of h"
  by (simp add: schema_of_def update_field_def map_update_same)


lemma schema_cells [simp]:
  "schema_of (h\<lparr>multivectors := m\<rparr>) = schema_of h"
  "schema_of (h\<lparr>double_cells := d\<rparr>) = schema_of h"
  "schema_of (h\<lparr>vector_cells := v\<rparr>) = schema_of h"
  by (simp_all add: schema_of_def)



lemma schema_Field_write: "schema_of (snd (Field_write h fa w)) = schema_of h"
  by (simp add: Field_write_def schema_update_field split: option.splits sum.splits)

lemma schema_Field_setters:
  "schema_of (snd (Field_set_data_multivector h fa pk mv)) = schema_of h"
  "schema_of (snd (Field_set_data_vector h fa pk v)) = schema_of h"
  "schema_of (snd (Field_set_data_array h fa pk u)) = schema_of h"
  "schema_of (snd (Field_set_data_scalar h fa pk x)) = schema_of h"
  "schema_of (snd (Field_set_data_array_block h fa pk u b)) = schema_of h"
  "schema_of (snd (Field_set_data_scalar_block h fa pk x b)) = schema_of h"
  "schema_of (snd (Field_set_vector_data h fa pk u b)) = schema_of h"
  "schema_of (snd (Field_set_data_pointer h fa pk p)) = schema_of h"
  "schema_of (snd (Field_set_subfield_names h fa ns)) = schema_of h"
  "schema_of (snd (Field_set_initialized h fa)) = schema_of h"
  "schema_of (snd (Field_set_owner h fa own)) = schema_of h"
  by (simp_all add: Field_set_data_multivector_def Field_set_data_vector_def
      Field_set_data_array_def Field_set_data_scalar_def Field_set_data_array_block_def
      Field_set_data_scalar_block_def Field_set_vector_data_def schema_Field_write
      Field_set_data_pointer_def Field_set_subfield_names_def Field_set_initialized_def
      Field_set_owner_def schema_update_field split: option.splits)







lemma consistent_fields_valid:
  assumes "registry_consistent h sa" and "deref (state_objs h) sa = Some s"
    and "fa \<in> set (State_fields s)"
  shows "fa < length (field_objs h)"
proof -
  from assms(3) obtain i where i: "i < length (State_fields s)" "State_fields s ! i = fa"
    by (auto simp: in_set_conv_nth)
  from assms(1,2) i(1) obtain name where "State_field_name_map s name = Some i"
    by (auto simp: registry_consistent_def)
  with assms(1,2) i(2) show ?thesis
    by (auto simp: registry_consistent_def deref_Some_iff)
qed



lemma require_field_new_heap:
  assumes s: "deref (state_objs h) this = Some s" and new: "State_field_name_map s n = None"
  shows "field_objs (snd (require_field h this n loc own nd)) = field_objs h @
      [\<lparr>Field_fieldname = n, Field_location = loc, Field_mesh_maps = State_mesh_maps s,
        Field_owner = own, Field_num_dofs = nd, Field_subfield_names = [],
        Field_initialized = False, Field_dirty = False, Field_data = Some (length (multivectors h))\<rparr>]"
    and "state_objs (snd (require_field h this n loc own nd)) = (state_objs h)[this :=
      s\<lparr>State_field_name_map := (State_field_name_map s)(n \<mapsto> length (State_fields s)),
        State_fields := State_fields s @ [length (field_objs h)]\<rparr>]"
  using s by (simp_all add: require_field_new [OF s new] Field_new_def Let_def
      update_state_def deref_Some_iff)

lemma require_field_new_consistent:
  assumes cons: "registry_consistent h this" and s: "deref (state_objs h) this = Some s"
    and new: "State_field_name_map s n = None"
  shows "registry_consistent (snd (require_field h this n loc own nd)) this"
proof -
  define f where "f = \<lparr>Field_fieldname = n, Field_location = loc, Field_mesh_maps = State_mesh_maps s,
      Field_owner = own, Field_num_dofs = nd, Field_subfield_names = [],
      Field_initialized = False, Field_dirty = False, Field_data = Some (length (multivectors h))\<rparr>"
  define s' where "s' = s\<lparr>State_field_name_map := (State_field_name_map s)(n \<mapsto> length (State_fields s)),
      State_fields := State_fields s @ [length (field_objs h)]\<rparr>"
  define h' where "h' = snd (require_field h this n loc own nd)"
  from s have this_lt: "this < length (state_objs h)"
    by (simp add: deref_Some_iff)
  have objs: "field_objs h' = field_objs h @ [f]"
    and sts: "state_objs h' = (state_objs h)[this := s']"
    unfolding h'_def f_def s'_def by (rule require_field_new_heap [OF s new])+
  have a: "i < length (State_fields s') \<and>
      (\<exists>g. deref (field_objs h') (State_fields s' ! i) = Some g \<and> Field_fieldname g = name)"
    if m: "State_field_name_map s' name = Some i" for name i
  proof (cases "name = n")
    case True
    with m have "i = length (State_fields s)" by (simp add: s'_def)
    then show ?thesis using True by (simp add: s'_def objs deref_def f_def)
  next
    case False
    with m have m0: "State_field_name_map s name = Some i" by (simp add: s'_def)
    with cons s have i: "i < length (State_fields s)"
      and v: "State_fields s ! i < length (field_objs h)"
      and nm: "Field_fieldname (field_objs h ! (State_fields s ! i)) = name"
      by (auto simp: registry_consistent_def deref_Some_iff)
    then show ?thesis by (simp add: s'_def objs deref_def nth_append)
  qed
  have b: "\<exists>!name. State_field_name_map s' name = Some i" if i: "i < length (State_fields s')" for i
  proof (cases "i = length (State_fields s)")
    case True
    have "name = n" if "State_field_name_map s' name = Some i" for name
    proof (rule ccontr)
      assume "name \<noteq> n"
      with that have "State_field_name_map s name = Some i" by (simp add: s'_def)
      with cons s have "i < length (State_fields s)" by (auto simp: registry_consistent_def)
      with True show False by simp
    qed
    moreover have "State_field_name_map s' n = Some i" using True by (simp add: s'_def)
    ultimately show ?thesis by blast
  next
    case False
    with i have "i < length (State_fields s)" by (simp add: s'_def)
    with cons s have "\<exists>!name. State_field_name_map s name = Some i"
      by (simp add: registry_consistent_def)
    then obtain name where u: "State_field_name_map s name = Some i"
      "\<And>name'. State_field_name_map s name' = Some i \<Longrightarrow> name' = name"
      by (elim ex1E) blast
    from u(1) new have "name \<noteq> n" by auto
    with u(1) have "State_field_name_map s' name = Some i" by (simp add: s'_def)
    moreover have "name' = name" if "State_field_name_map s' name' = Some i" for name'
      using that False u(2) [of name'] by (cases "name' = n") (simp_all add: s'_def)
    ultimately show ?thesis by blast
  qed
  show ?thesis
    unfolding h'_def [symmetric]
    using this_lt a b by (simp add: registry_consistent_def deref_def sts)
qed

lemma require_field_existing_schema:
  assumes "deref (state_objs h) this = Some s" and "State_field_name_map s n \<noteq> None"
  shows "schema_of (snd (require_field h this n loc own nd)) = schema_of h"
  using assms
  by (auto simp: require_field_def schema_Field_setters split: sum.splits option.splits)

lemma consistent_state:
  "registry_consistent h sa \<Longrightarrow> \<exists>s. deref (state_objs h) sa = Some s"
  by (cases "deref (state_objs h) sa") (simp_all add: registry_consistent_def)

lemma require_field_consistent:
  assumes "registry_consistent h this"
  shows "registry_consistent (snd (require_field h this n loc own nd)) this"
proof -
  from consistent_state [OF assms] obtain s where s: "deref (state_objs h) this = Some s" ..
  show ?thesis
  proof (cases "State_field_name_map s n")
    case None
    show ?thesis by (rule require_field_new_consistent [OF assms s None])
  next
    case (Some i)
    then have "State_field_name_map s n \<noteq> None" by simp
    from require_field_existing_schema [OF s this]
    have "schema_of (snd (require_field h this n loc own nd)) = schema_of h" .
    from registry_consistent_schema [OF this] assms show ?thesis by simp
  qed
qed


section \<open>Ownership arbitration\<close>


lemma require_fields_consistent:
  "registry_consistent h this \<Longrightarrow> registry_consistent (snd (require_fields h this calls)) this"
proof (induction calls arbitrary: h)
  case Nil
  then show ?case by simp
next
  case (Cons c calls)
  obtain n loc own nd where c: "c = (n, loc, own, nd)" by (cases c)
  obtain r h1 where rf: "require_field h this n loc own nd = (r, h1)"
    by (cases "require_field h this n loc own nd")
  from require_field_consistent [OF Cons.prems, of n loc own nd] rf
  have c1: "registry_consistent h1 this" by simp
  show ?case
  proof (cases r)
    case None
    with rf c Cons.IH [OF c1] show ?thesis by (simp add: then_do_def)
  next
    case (Some e)
    with rf c c1 show ?thesis by (simp add: then_do_def)
  qed
qed

lemma update_field_sel [simp]:
  "field_objs (update_field h fa g) = (field_objs h)[fa := g (field_objs h ! fa)]"
  "state_objs (update_field h fa g) = state_objs h"
  "multivectors (update_field h fa g) = multivectors h"
  "double_cells (update_field h fa g) = double_cells h"
  "vector_cells (update_field h fa g) = vector_cells h"
  by (simp_all add: update_field_def)

lemma update_state_sel [simp]:
  "state_objs (update_state h sa g) = (state_objs h)[sa := g (state_objs h ! sa)]"
  "field_objs (update_state h sa g) = field_objs h"
  "multivectors (update_state h sa g) = multivectors h"
  "double_cells (update_state h sa g) = double_cells h"
  "vector_cells (update_state h sa g) = vector_cells h"
  by (simp_all add: update_state_def)

lemma get_field_record_states:
  "state_objs h' = state_objs h \<Longrightarrow> get_field_record h' this m = get_field_record h this m"
  by (simp add: get_field_record_def)

lemma consistent_injective:
  assumes cons: "registry_consistent h this"
    and a: "get_field_record h this n = Inr fa" and b: "get_field_record h this n' = Inr fa"
  shows "n = n'"
  using consistent_record [OF cons a] consistent_record [OF cons b] by auto

lemma field_owner_update_other:
  assumes cons: "registry_consistent h this"
    and rec: "get_field_record h this n = Inr fa" and ne: "n' \<noteq> n"
  shows "field_owner (update_field h fa g) this n' = field_owner h this n'"
proof -
  have gr: "get_field_record (update_field h fa g) this m = get_field_record h this m" for m
    by (rule get_field_record_states) simp
  show ?thesis
  proof (cases "get_field_record h this n'")
    case (Inl e)
    then show ?thesis by (simp add: field_owner_def gr)
  next
    case (Inr fb)
    with consistent_injective [OF cons rec] ne have "fb \<noteq> fa" by auto
    then show ?thesis using Inr
      by (simp add: field_owner_def gr deref_def)
  qed
qed

lemma field_read_update_same:
  assumes rec: "get_field_record h this n = Inr fa" and f: "deref (field_objs h) fa = Some f"
  shows "field_owner (update_field h fa g) this n = Some (Field_owner (g f))"
    and "field_location (update_field h fa g) this n = Some (Field_location (g f))"
proof -
  have gr: "get_field_record (update_field h fa g) this m = get_field_record h this m" for m
    by (rule get_field_record_states) simp
  from f show "field_owner (update_field h fa g) this n = Some (Field_owner (g f))"
    "field_location (update_field h fa g) this n = Some (Field_location (g f))"
    by (simp_all add: field_owner_def field_location_def gr rec deref_def split: if_splits)
qed

lemma require_field_new_reads:
  assumes cons: "registry_consistent h this" and s: "deref (state_objs h) this = Some s"
    and new: "State_field_name_map s n = None"
  shows "field_owner (snd (require_field h this n loc own nd)) this n = Some own"
    and "field_location (snd (require_field h this n loc own nd)) this n = Some loc"
    and "n' \<noteq> n \<Longrightarrow> field_owner (snd (require_field h this n loc own nd)) this n' = field_owner h this n'"
proof -
  define h' where "h' = snd (require_field h this n loc own nd)"
  note hp = require_field_new_heap [OF s new, of loc own nd, folded h'_def]
  from s have lt: "this < length (state_objs h)" by (simp add: deref_Some_iff)
  have rec: "get_field_record h' this n = Inr (length (field_objs h))"
    using lt by (simp add: get_field_record_def deref_def hp)
  show "field_owner h' this n = Some own" "field_location h' this n = Some loc"
    by (simp_all add: field_owner_def field_location_def rec deref_def hp)
  show "field_owner h' this n' = field_owner h this n'" if ne: "n' \<noteq> n"
  proof (cases "State_field_name_map s n'")
    case None
    then show ?thesis using lt s ne
      by (simp add: field_owner_def get_field_record_def deref_def hp)
  next
    case (Some i)
    from consistent_registered [OF cons s Some] have r0: "get_field_record h this n' = Inr (State_fields s ! i)" .
    from cons s Some have i: "i < length (State_fields s)"
      by (auto simp: registry_consistent_def)
    then have "State_fields s ! i \<in> set (State_fields s)" by simp
    from consistent_fields_valid [OF cons s this] have v: "State_fields s ! i < length (field_objs h)" .
    have r1: "get_field_record h' this n' = Inr (State_fields s ! i)"
      using lt ne Some i by (simp add: get_field_record_def deref_def hp nth_append)
    show ?thesis using v by (simp add: field_owner_def r0 r1 deref_def hp nth_append)
  qed
qed

lemma field_reads_SomeD:
  assumes "field_owner h this n = Some y"
  obtains fa f where "get_field_record h this n = Inr fa" "deref (field_objs h) fa = Some f"
    "Field_owner f = y" "field_location h this n = Some (Field_location f)"
  using assms by (auto simp: field_owner_def field_location_def split: sum.splits)

text \<open>
  Claim C1. After any sequence of \<open>require_field\<close> calls on a consistent registry that
  ended without a fatal error, the next call \<open>require_field(n, loc, own, nd)\<close> follows
  the arbitration table of section 4.2: a name the registry does not know is created with
  the requested owner and location; a field owned by "state" goes to the requester when
  the location matches; a field owned by a PK stays with it, and nothing is written, when
  "state" asks with a matching location; a location mismatch is fatal in both cases; a
  request of another PK for a field a PK owns is fatal whatever the location; the fatal
  calls leave the store as it was, and no call changes the owner of a field of another
  name.
\<close>

theorem require_field_arbitration:
  assumes start: "registry_consistent h0 this"
    and run: "require_fields h0 this calls = (None, h)"
  shows "(field_owner h this n = None \<longrightarrow>
            fst (require_field h this n loc own nd) = None \<and>
            field_owner (snd (require_field h this n loc own nd)) this n = Some own \<and>
            field_location (snd (require_field h this n loc own nd)) this n = Some loc)
       \<and> (field_owner h this n = Some ''state'' \<longrightarrow> field_location h this n = Some loc \<longrightarrow>
            fst (require_field h this n loc own nd) = None \<and>
            field_owner (snd (require_field h this n loc own nd)) this n = Some own \<and>
            field_location (snd (require_field h this n loc own nd)) this n = Some loc)
       \<and> (field_owner h this n = Some ''state'' \<longrightarrow> field_location h this n \<noteq> Some loc \<longrightarrow>
            require_field h this n loc own nd = (Some LocationConflict, h))
       \<and> (\<forall>y. field_owner h this n = Some y \<longrightarrow> y \<noteq> ''state'' \<longrightarrow> own = ''state'' \<longrightarrow>
            field_location h this n = Some loc \<longrightarrow>
            require_field h this n loc own nd = (None, h))
       \<and> (\<forall>y. field_owner h this n = Some y \<longrightarrow> y \<noteq> ''state'' \<longrightarrow> own = ''state'' \<longrightarrow>
            field_location h this n \<noteq> Some loc \<longrightarrow>
            require_field h this n loc own nd = (Some LocationConflict, h))
       \<and> (\<forall>y. field_owner h this n = Some y \<longrightarrow> y \<noteq> ''state'' \<longrightarrow> own \<noteq> ''state'' \<longrightarrow>
            own \<noteq> y \<longrightarrow>
            require_field h this n loc own nd = (Some AlreadyOwned, h))
       \<and> (\<forall>n'. n' \<noteq> n \<longrightarrow>
            field_owner (snd (require_field h this n loc own nd)) this n' = field_owner h this n')"
proof -
  from require_fields_consistent [OF start, of calls] run
  have cons: "registry_consistent h this" by simp
  from consistent_state [OF cons] obtain s where s: "deref (state_objs h) this = Some s" ..
  have row1: "fst (require_field h this n loc own nd) = None \<and>
      field_owner (snd (require_field h this n loc own nd)) this n = Some own \<and>
      field_location (snd (require_field h this n loc own nd)) this n = Some loc"
    if "field_owner h this n = None"
  proof -
    from that field_owner_None_iff [OF cons s] have new: "State_field_name_map s n = None" by simp
    show ?thesis
      using require_field_new_reads(1,2) [OF cons s new] require_field_new [OF s new]
      by simp
  qed
  have row2: "fst (require_field h this n loc own nd) = None \<and>
      field_owner (snd (require_field h this n loc own nd)) this n = Some own \<and>
      field_location (snd (require_field h this n loc own nd)) this n = Some loc"
    if o: "field_owner h this n = Some ''state''" and l: "field_location h this n = Some loc"
  proof -
    from o obtain fa f where r: "get_field_record h this n = Inr fa" "deref (field_objs h) fa = Some f"
      "Field_owner f = ''state''" "field_location h this n = Some (Field_location f)"
      by (rule field_reads_SomeD)
    with l have "loc = Field_location f" by simp
    then show ?thesis
      using r(3) field_read_update_same [OF r(1,2)] by (simp add: require_field_existing [OF r(1,2)])
  qed
  have row3: "require_field h this n loc own nd = (Some LocationConflict, h)"
    if o: "field_owner h this n = Some ''state''" and l: "field_location h this n \<noteq> Some loc"
  proof -
    from o obtain fa f where r: "get_field_record h this n = Inr fa" "deref (field_objs h) fa = Some f"
      "Field_owner f = ''state''" "field_location h this n = Some (Field_location f)"
      by (rule field_reads_SomeD)
    with l have "loc \<noteq> Field_location f" by simp
    then show ?thesis using r(3) by (simp add: require_field_existing [OF r(1,2)])
  qed
  have row456: "require_field h this n loc own nd =
      (if own = ''state'' then (if field_location h this n = Some loc then (None, h)
                               else (Some LocationConflict, h))
       else (Some AlreadyOwned, h))"
    if o: "field_owner h this n = Some y" and y: "y \<noteq> ''state''" for y
  proof -
    from o obtain fa f where r: "get_field_record h this n = Inr fa" "deref (field_objs h) fa = Some f"
      "Field_owner f = y" "field_location h this n = Some (Field_location f)"
      by (rule field_reads_SomeD)
    show ?thesis using r(3,4) y by (auto simp: require_field_existing [OF r(1,2)])
  qed
  have frame: "field_owner (snd (require_field h this n loc own nd)) this n' = field_owner h this n'"
    if ne: "n' \<noteq> n" for n'
  proof (cases "field_owner h this n")
    case None
    with field_owner_None_iff [OF cons s] have new: "State_field_name_map s n = None" by simp
    show ?thesis by (rule require_field_new_reads(3) [OF cons s new ne])
  next
    case (Some y)
    then obtain fa f where r: "get_field_record h this n = Inr fa" "deref (field_objs h) fa = Some f"
      by (rule field_reads_SomeD)
    show ?thesis
      using field_owner_update_other [OF cons r(1) ne]
      by (simp add: require_field_existing [OF r])
  qed
  show ?thesis
  proof (intro conjI allI impI)
    fix y
    assume "field_owner h this n = Some y" "y \<noteq> ''state''" "own = ''state''"
      "field_location h this n = Some loc"
    then show "require_field h this n loc own nd = (None, h)"
      using row456 [of y] by simp
  next
    fix y
    assume "field_owner h this n = Some y" "y \<noteq> ''state''" "own = ''state''"
      "field_location h this n \<noteq> Some loc"
    then show "require_field h this n loc own nd = (Some LocationConflict, h)"
      using row456 [of y] by simp
  next
    fix y
    assume "field_owner h this n = Some y" "y \<noteq> ''state''" "own \<noteq> ''state''" "own \<noteq> y"
    then show "require_field h this n loc own nd = (Some AlreadyOwned, h)"
      using row456 [of y] by simp
  qed (simp_all add: row1 row2 row3 frame)
qed

lemma demo_registry_eval:
  "demo_registry = \<lparr>state_objs = [\<lparr>State_mesh_maps = demo_mesh, State_parameter_list = [],
       State_density = 0, State_viscosity = 1, State_gravity = 0,
       State_field_name_map = Map.empty, State_fields = [],
       State_time = 0, State_cycle = 0, State_status = 0\<rparr>],
     field_objs = [], multivectors = [], double_cells = [0, 0], vector_cells = [[0, 0, 0]]\<rparr>"
  by (simp add: demo_registry_def State_new_def empty_heap_def)

lemma demo_two_fields_eval:
  "require_fields demo_registry 0
      [(''pressure'', FIELD_LOCATION_CELL, ''state'', 1),
       (''temperature'', FIELD_LOCATION_CELL, ''energy'', 1)] = (None, demo_two_fields)"
  "demo_two_fields = \<lparr>state_objs = [\<lparr>State_mesh_maps = demo_mesh, State_parameter_list = [],
       State_density = 0, State_viscosity = 1, State_gravity = 0,
       State_field_name_map = [''pressure'' \<mapsto> 0, ''temperature'' \<mapsto> 1], State_fields = [0, 1],
       State_time = 0, State_cycle = 0, State_status = 0\<rparr>],
     field_objs = [\<lparr>Field_fieldname = ''pressure'', Field_location = FIELD_LOCATION_CELL,
         Field_mesh_maps = demo_mesh, Field_owner = ''state'', Field_num_dofs = 1,
         Field_subfield_names = [], Field_initialized = False, Field_dirty = False, Field_data = Some 0\<rparr>,
       \<lparr>Field_fieldname = ''temperature'', Field_location = FIELD_LOCATION_CELL,
         Field_mesh_maps = demo_mesh, Field_owner = ''energy'', Field_num_dofs = 1,
         Field_subfield_names = [], Field_initialized = False, Field_dirty = False, Field_data = Some 1\<rparr>],
     multivectors = [[[0, 0]], [[0, 0]]], double_cells = [0, 0], vector_cells = [[0, 0, 0]]\<rparr>"
  by (simp_all add: demo_two_fields_def demo_registry_eval then_do_def require_field_def
      Field_new_def deref_def update_state_def demo_mesh_def numeral_2_eq_2)

lemma demo_registry_consistent: "registry_consistent demo_registry 0"
  by (simp add: registry_consistent_def demo_registry_eval deref_def)

text \<open>
  The table at work on the registry with "pressure" owned by "state" and "temperature"
  owned by "energy".
\<close>

theorem require_field_arbitration_witness:
  "field_owner demo_two_fields 0 ''pressure'' = Some ''state''
   \<and> fst (require_field demo_two_fields 0 ''pressure'' FIELD_LOCATION_CELL ''flow'' 1) = None
   \<and> field_owner (snd (require_field demo_two_fields 0 ''pressure'' FIELD_LOCATION_CELL ''flow'' 1)) 0 ''pressure'' = Some ''flow''
   \<and> field_owner (snd (require_field demo_two_fields 0 ''pressure'' FIELD_LOCATION_CELL ''flow'' 1)) 0 ''temperature'' = Some ''energy''
   \<and> require_field demo_two_fields 0 ''pressure'' FIELD_LOCATION_FACE ''flow'' 1 = (Some LocationConflict, demo_two_fields)
   \<and> require_field demo_two_fields 0 ''temperature'' FIELD_LOCATION_CELL ''state'' 1 = (None, demo_two_fields)
   \<and> require_field demo_two_fields 0 ''temperature'' FIELD_LOCATION_FACE ''state'' 1 = (Some LocationConflict, demo_two_fields)
   \<and> require_field demo_two_fields 0 ''temperature'' FIELD_LOCATION_FACE ''flow'' 1 = (Some AlreadyOwned, demo_two_fields)
   \<and> field_owner demo_two_fields 0 ''saturation'' = None
   \<and> field_owner (snd (require_field demo_two_fields 0 ''saturation'' FIELD_LOCATION_FACE ''flow'' 3)) 0 ''saturation'' = Some ''flow''"
proof -
  note table = require_field_arbitration [OF demo_registry_consistent demo_two_fields_eval(1)]
  have p: "field_owner demo_two_fields 0 ''pressure'' = Some ''state''"
    "field_location demo_two_fields 0 ''pressure'' = Some FIELD_LOCATION_CELL"
    by (simp_all add: field_owner_def field_location_def get_field_record_def deref_def demo_two_fields_eval(2))
  have t: "field_owner demo_two_fields 0 ''temperature'' = Some ''energy''"
    "field_location demo_two_fields 0 ''temperature'' = Some FIELD_LOCATION_CELL"
    by (simp_all add: field_owner_def field_location_def get_field_record_def deref_def demo_two_fields_eval(2))
  have s: "field_owner demo_two_fields 0 ''saturation'' = None"
    by (simp add: field_owner_def get_field_record_def deref_def demo_two_fields_eval(2))
  show ?thesis
    using table [of "''pressure''" FIELD_LOCATION_CELL "''flow''" 1]
      table [of "''pressure''" FIELD_LOCATION_FACE "''flow''" 1]
      table [of "''temperature''" FIELD_LOCATION_CELL "''state''" 1]
      table [of "''temperature''" FIELD_LOCATION_FACE "''state''" 1]
      table [of "''temperature''" FIELD_LOCATION_FACE "''flow''" 1]
      table [of "''saturation''" FIELD_LOCATION_FACE "''flow''" 3]
    by (simp add: p t s)
qed

section \<open>Accessors\<close>

text \<open>
  Claim C10. A PK that asks again for a field it already owns gets the fatal
  double-ownership error, whatever the location it asks for: the branches of
  \<open>require_field\<close> tell a field of "state" and a request of "state" apart, and take
  every other request for an existing field as a conflict.
\<close>

theorem require_field_by_owner_is_fatal:
  assumes "field_owner h this n = Some y" and "y \<noteq> ''state''"
  shows "require_field h this n loc y nd = (Some AlreadyOwned, h)"
proof -
  from assms(1) obtain fa f where r: "get_field_record h this n = Inr fa"
    "deref (field_objs h) fa = Some f" "Field_owner f = y"
    by (rule field_reads_SomeD)
  show ?thesis using r(3) assms(2) by (simp add: require_field_existing [OF r(1,2)])
qed

theorem require_field_by_owner_is_fatal_witness:
  "field_owner demo_two_fields 0 ''temperature'' = Some ''energy''
   \<and> require_field demo_two_fields 0 ''temperature'' FIELD_LOCATION_CELL ''energy'' 1
       = (Some AlreadyOwned, demo_two_fields)"
proof -
  have o: "field_owner demo_two_fields 0 ''temperature'' = Some ''energy''"
    by (simp add: field_owner_def get_field_record_def deref_def demo_two_fields_eval(2))
  from require_field_by_owner_is_fatal [OF o] o show ?thesis by simp
qed

text \<open>
  Claim C9. The mutable accessor \<open>get_field(fieldname, pk_name)\<close> returns the buffer of
  every registered field to every requester: \<open>pk_name\<close> is not compared with the owner.
\<close>

theorem get_field_mutable_ignores_requester:
  assumes "get_field_record h this n = Inr fa" and "deref (field_objs h) fa = Some f"
  shows "get_field_mutable h this n pk_name = Inr (Field_data f)"
  using assms by (simp add: get_field_mutable_def Field_get_data_mutable_def)

theorem get_field_mutable_ignores_requester_witness:
  "field_owner demo_two_fields 0 ''temperature'' = Some ''energy''
   \<and> get_field_mutable demo_two_fields 0 ''temperature'' ''flow'' = Inr (Some 1)"
proof -
  have r: "get_field_record demo_two_fields 0 ''temperature'' = Inr 1"
    by (simp add: get_field_record_def deref_def demo_two_fields_eval(2))
  have f: "deref (field_objs demo_two_fields) 1 = Some (field_objs demo_two_fields ! 1)"
    by (simp add: deref_def demo_two_fields_eval(2))
  have o: "field_owner demo_two_fields 0 ''temperature'' = Some ''energy''"
    by (simp add: field_owner_def get_field_record_def deref_def demo_two_fields_eval(2))
  from get_field_mutable_ignores_requester [OF r f, of "''flow''"] o
  show ?thesis by (simp add: demo_two_fields_eval(2))
qed

lemma all_initialized_valid:
  "\<forall>fa \<in> set fas. fa < length (field_objs h) \<Longrightarrow>
   all_initialized h fas = Inr (\<forall>fa \<in> set fas. Field_initialized (field_objs h ! fa))"
  by (induction fas) (auto simp: deref_def)

text \<open>
  Claim C6. \<open>check_all_initialized()\<close> returns true if and only if the initialized latch
  of every field of the registry is set.
\<close>

theorem check_all_initialized_iff:
  assumes "deref (state_objs h) this = Some s"
    and "\<forall>fa \<in> set (State_fields s). fa < length (field_objs h)"
  shows "check_all_initialized h this =
         Inr (\<forall>fa \<in> set (State_fields s). Field_initialized (field_objs h ! fa))"
  using assms by (simp add: check_all_initialized_def all_initialized_valid)

lemma demo_initialized_eval:
  "state_objs demo_initialized = state_objs demo_two_fields"
  "field_objs demo_initialized = map (\<lambda>f. f\<lparr>Field_initialized := True\<rparr>) (field_objs demo_two_fields)"
  by (simp_all add: demo_initialized_def Field_set_initialized_def deref_def demo_two_fields_eval(2))

theorem check_all_initialized_iff_witness:
  "check_all_initialized demo_two_fields 0 = Inr False
   \<and> check_all_initialized demo_initialized 0 = Inr True"
proof -
  have a: "deref (state_objs demo_two_fields) 0 = Some (state_objs demo_two_fields ! 0)"
    "deref (state_objs demo_initialized) 0 = Some (state_objs demo_two_fields ! 0)"
    by (simp_all add: deref_def demo_initialized_eval demo_two_fields_eval(2))
  have b: "\<forall>fa \<in> set (State_fields (state_objs demo_two_fields ! 0)). fa < length (field_objs demo_two_fields)"
    "\<forall>fa \<in> set (State_fields (state_objs demo_two_fields ! 0)). fa < length (field_objs demo_initialized)"
    by (simp_all add: demo_initialized_eval demo_two_fields_eval(2))
  from check_all_initialized_iff [OF a(1) b(1)] check_all_initialized_iff [OF a(2) b(2)]
  show ?thesis by (simp add: demo_initialized_eval demo_two_fields_eval(2))
qed

section \<open>Assignment\<close>

lemma demo_snapshot_eval:
  "demo_snapshot = \<lparr>state_objs = [\<lparr>State_mesh_maps = demo_mesh, State_parameter_list = [],
       State_density = 0, State_viscosity = 1, State_gravity = 0,
       State_field_name_map = [''pressure'' \<mapsto> 0, ''temperature'' \<mapsto> 1], State_fields = [0, 1],
       State_time = 0, State_cycle = 0, State_status = 0\<rparr>,
      \<lparr>State_mesh_maps = demo_mesh, State_parameter_list = [],
       State_density = 2, State_viscosity = 3, State_gravity = 1,
       State_field_name_map = [''pressure'' \<mapsto> 0, ''temperature'' \<mapsto> 1], State_fields = [2, 3],
       State_time = 0, State_cycle = 0, State_status = 0\<rparr>],
     field_objs = [\<lparr>Field_fieldname = ''pressure'', Field_location = FIELD_LOCATION_CELL,
         Field_mesh_maps = demo_mesh, Field_owner = ''state'', Field_num_dofs = 1,
         Field_subfield_names = [], Field_initialized = False, Field_dirty = False, Field_data = Some 0\<rparr>,
       \<lparr>Field_fieldname = ''temperature'', Field_location = FIELD_LOCATION_CELL,
         Field_mesh_maps = demo_mesh, Field_owner = ''energy'', Field_num_dofs = 1,
         Field_subfield_names = [], Field_initialized = False, Field_dirty = False, Field_data = Some 1\<rparr>,
       \<lparr>Field_fieldname = ''pressure'', Field_location = FIELD_LOCATION_CELL,
         Field_mesh_maps = demo_mesh, Field_owner = ''state'', Field_num_dofs = 1,
         Field_subfield_names = [], Field_initialized = False, Field_dirty = False, Field_data = Some 2\<rparr>,
       \<lparr>Field_fieldname = ''temperature'', Field_location = FIELD_LOCATION_CELL,
         Field_mesh_maps = demo_mesh, Field_owner = ''energy'', Field_num_dofs = 1,
         Field_subfield_names = [], Field_initialized = False, Field_dirty = False, Field_data = Some 3\<rparr>],
     multivectors = [[[0, 0]], [[0, 0]], [[0, 0]], [[0, 0]]],
     double_cells = [0, 0, 0, 0], vector_cells = [[0, 0, 0], [0, 0, 0]]\<rparr>"
  by (simp add: demo_snapshot_def demo_two_fields_eval(2) State_copy_def Field_copy_def deref_def)

lemma demo_grown_eval:
  "state_objs demo_grown = [\<lparr>State_mesh_maps = demo_mesh, State_parameter_list = [],
       State_density = 0, State_viscosity = 1, State_gravity = 0,
       State_field_name_map = [''pressure'' \<mapsto> 0, ''temperature'' \<mapsto> 1, ''saturation'' \<mapsto> 2],
       State_fields = [0, 1, 4],
       State_time = 0, State_cycle = 0, State_status = 0\<rparr>,
      \<lparr>State_mesh_maps = demo_mesh, State_parameter_list = [],
       State_density = 2, State_viscosity = 3, State_gravity = 1,
       State_field_name_map = [''pressure'' \<mapsto> 0, ''temperature'' \<mapsto> 1], State_fields = [2, 3],
       State_time = 0, State_cycle = 0, State_status = 0\<rparr>]"
  by (simp add: demo_grown_def demo_snapshot_eval require_field_def Field_new_def deref_def
      update_state_def numeral_2_eq_2)

text \<open>
  Claim C3. Assigning a registry from one with another number of fields raises the
  incompatible-state error and leaves the whole store, so every datum of the target
  (fields, scalars, gravity, time, cycle, name map), as it was.
\<close>

theorem State_assign_count_mismatch_is_atomic:
  assumes "deref (state_objs h) this = Some t" and "deref (state_objs h) sa = Some s"
    and "length (State_fields t) \<noteq> length (State_fields s)"
  shows "State_assign h this sa = (Some NonCompatibleStates, h)"
  using assms by (simp add: State_assign_def)

theorem State_assign_count_mismatch_is_atomic_witness:
  "length (State_fields (state_objs demo_grown ! 1)) = 2
   \<and> length (State_fields (state_objs demo_grown ! 0)) = 3
   \<and> State_assign demo_grown 1 0 = (Some NonCompatibleStates, demo_grown)"
proof -
  have a: "deref (state_objs demo_grown) 1 = Some (state_objs demo_grown ! 1)"
    "deref (state_objs demo_grown) 0 = Some (state_objs demo_grown ! 0)"
    by (simp_all add: deref_def demo_grown_eval)
  have b: "length (State_fields (state_objs demo_grown ! 1)) \<noteq> length (State_fields (state_objs demo_grown ! 0))"
    by (simp add: demo_grown_eval)
  from State_assign_count_mismatch_is_atomic [OF a b] show ?thesis
    by (simp add: demo_grown_eval)
qed

lemma demo_mismatch_eval:
  "demo_mismatch = \<lparr>state_objs = [\<lparr>State_mesh_maps = demo_mesh, State_parameter_list = [],
       State_density = 0, State_viscosity = 1, State_gravity = 0,
       State_field_name_map = [''pressure'' \<mapsto> 0], State_fields = [0],
       State_time = 0, State_cycle = 0, State_status = 0\<rparr>,
      \<lparr>State_mesh_maps = demo_mesh, State_parameter_list = [],
       State_density = 2, State_viscosity = 3, State_gravity = 1,
       State_field_name_map = [''velocity'' \<mapsto> 0], State_fields = [1],
       State_time = 0, State_cycle = 0, State_status = 0\<rparr>],
     field_objs = [\<lparr>Field_fieldname = ''pressure'', Field_location = FIELD_LOCATION_CELL,
         Field_mesh_maps = demo_mesh, Field_owner = ''flow'', Field_num_dofs = 1,
         Field_subfield_names = [], Field_initialized = False, Field_dirty = False, Field_data = Some 0\<rparr>,
       \<lparr>Field_fieldname = ''velocity'', Field_location = FIELD_LOCATION_FACE,
         Field_mesh_maps = demo_mesh, Field_owner = ''state'', Field_num_dofs = 1,
         Field_subfield_names = [], Field_initialized = False, Field_dirty = False, Field_data = Some 1\<rparr>],
     multivectors = [[[0, 0]], [[0, 0]]],
     double_cells = [0, 0, 0, 0], vector_cells = [[0, 0, 0], [0, 0, 0]]\<rparr>"
  by (simp add: demo_mismatch_def demo_registry_eval State_copy_def deref_def require_field_def
      Field_new_def update_state_def demo_mesh_def numeral_2_eq_2)

lemma demo_mismatch_assign: "fst (State_assign demo_mismatch 1 0) = None"
  by (simp add: demo_mismatch_eval deref_def State_assign_def then_do_def update_state_def
      copy_double_cell_def copy_vector_cell_def Field_assign_def)

text \<open>
  Claim C4 fails as stated: the registries at addresses 0 and 1 hold one field each,
  "pressure" on cells and "velocity" on faces, and the assignment of the second from the
  first returns without an error.
\<close>

theorem State_assign_schema_mismatch_counterexample:
  "field_location demo_mismatch 0 ''pressure'' = Some FIELD_LOCATION_CELL
   \<and> field_location demo_mismatch 0 ''velocity'' = None
   \<and> field_location demo_mismatch 1 ''pressure'' = None
   \<and> field_location demo_mismatch 1 ''velocity'' = Some FIELD_LOCATION_FACE
   \<and> fst (State_assign demo_mismatch 1 0) = None"
  by (simp add: demo_mismatch_eval field_location_def get_field_record_def deref_def
      State_assign_def then_do_def update_state_def copy_double_cell_def copy_vector_cell_def
      Field_assign_def)

lemma only_null_then_do:
  "only_null r \<Longrightarrow> (\<And>h. only_null (k h)) \<Longrightarrow> only_null (then_do r k)"
  by (cases r) (auto simp: then_do_def only_null_def split: option.splits)

lemma only_null_Field_assign: "only_null (Field_assign h dst src)"
  by (simp add: Field_assign_def only_null_def split: option.splits)

lemma only_null_assign_fields: "only_null (assign_fields h ps)"
proof (induction ps arbitrary: h)
  case Nil
  then show ?case by (simp add: only_null_def)
next
  case (Cons p ps)
  obtain dst src where p: "p = (dst, src)" by (cases p)
  show ?case unfolding p assign_fields.simps
    by (rule only_null_then_do) (simp_all add: only_null_Field_assign Cons.IH)
qed

lemma only_null_copy_cells:
  "only_null (copy_double_cell h dst src)" "only_null (copy_vector_cell h dst src)"
  by (simp_all add: copy_double_cell_def copy_vector_cell_def only_null_def split: option.splits)

lemma only_null_None [simp]: "only_null (None, h)"
  by (simp add: only_null_def)

lemma State_assign_same_count:
  assumes "deref (state_objs h) this = Some t" and "deref (state_objs h) sa = Some s"
    and "length (State_fields t) = length (State_fields s)"
  shows "only_null (State_assign h this sa)"
  using assms
  by (simp add: State_assign_def only_null_then_do only_null_copy_cells only_null_assign_fields)

text \<open>
  Claim C4 as amended. Assignment between two registries raises the incompatible-state
  error exactly when their numbers of fields differ; with equal numbers the names, the
  locations and the order of the fields are not compared, and the only error left is the
  dereference of a null pointer.
\<close>

theorem State_assign_compares_counts_only:
  assumes "deref (state_objs h) this = Some t" and "deref (state_objs h) sa = Some s"
  shows "(fst (State_assign h this sa) = Some NonCompatibleStates) =
           (length (State_fields t) \<noteq> length (State_fields s))
       \<and> (length (State_fields t) = length (State_fields s) \<longrightarrow>
            fst (State_assign h this sa) = None \<or> fst (State_assign h this sa) = Some NullPointer)"
proof (cases "length (State_fields t) = length (State_fields s)")
  case True
  from State_assign_same_count [OF assms True] show ?thesis
    using True by (auto simp: only_null_def)
next
  case False
  with assms show ?thesis by (simp add: State_assign_def)
qed

theorem State_assign_compares_counts_only_witness:
  "length (State_fields (state_objs demo_mismatch ! 1)) = length (State_fields (state_objs demo_mismatch ! 0))
   \<and> fst (State_assign demo_mismatch 1 0) \<noteq> Some NonCompatibleStates
   \<and> fst (State_assign demo_grown 1 0) = Some NonCompatibleStates"
proof -
  have a: "deref (state_objs demo_mismatch) 1 = Some (state_objs demo_mismatch ! 1)"
    "deref (state_objs demo_mismatch) 0 = Some (state_objs demo_mismatch ! 0)"
    by (simp_all add: deref_def demo_mismatch_eval)
  have b: "deref (state_objs demo_grown) 1 = Some (state_objs demo_grown ! 1)"
    "deref (state_objs demo_grown) 0 = Some (state_objs demo_grown ! 0)"
    by (simp_all add: deref_def demo_grown_eval)
  from State_assign_compares_counts_only [OF a] State_assign_compares_counts_only [OF b]
  show ?thesis by (simp add: demo_mismatch_eval demo_grown_eval)
qed

section \<open>The invariant under assignment and copy\<close>



lemma upt_add_Suc: "[m ..< m + Suc n] = m # [Suc m ..< Suc m + n]"
proof -
  have "[m ..< m + Suc n] = m # [Suc m ..< m + Suc n]"
    by (rule upt_conv_Cons) simp
  then show ?thesis by (simp only: add_Suc add_Suc_right)
qed

lemma Field_copy_effect:
  assumes "Field_copy h fa = (Inr na, h')"
  shows "fa < length (field_objs h)" and "na = length (field_objs h)"
    and "field_objs h' = field_objs h @ [(field_objs h ! fa)\<lparr>Field_data := Some (length (multivectors h))\<rparr>]"
    and "\<exists>buffer. multivectors h' = multivectors h @ [buffer]"
    and "state_objs h' = state_objs h" and "double_cells h' = double_cells h"
    and "vector_cells h' = vector_cells h"
  using assms by (auto simp: Field_copy_def deref_def split: if_splits option.splits)

lemma copy_fields_effect:
  assumes "copy_fields h fas = (Inr nas, h')" and "\<forall>fa \<in> set fas. fa < length (field_objs h)"
  shows "state_objs h' = state_objs h \<and> double_cells h' = double_cells h \<and>
     vector_cells h' = vector_cells h \<and>
     nas = [length (field_objs h) ..< length (field_objs h) + length fas] \<and>
     field_objs h' = field_objs h @ map (\<lambda>(fa, k). (field_objs h ! fa)\<lparr>Field_data := Some k\<rparr>)
        (zip fas [length (multivectors h) ..< length (multivectors h) + length fas]) \<and>
     length (multivectors h') = length (multivectors h) + length fas \<and>
     take (length (multivectors h)) (multivectors h') = multivectors h"
  using assms
proof (induction fas arbitrary: h nas h')
  case Nil
  then show ?case by simp
next
  case (Cons fa fas)
  obtain r1 h1 where fc: "Field_copy h fa = (r1, h1)" by (cases "Field_copy h fa")
  obtain r2 h2 where cf: "copy_fields h1 fas = (r2, h2)" by (cases "copy_fields h1 fas")
  from Cons.prems(1) fc cf obtain na nas' where r1: "r1 = Inr na" and r2: "r2 = Inr nas'"
    and nas: "nas = na # nas'" and h': "h' = h2"
    by (auto split: sum.splits)
  note e = Field_copy_effect [OF fc [unfolded r1]]
  from e(4) obtain buffer where m1: "multivectors h1 = multivectors h @ [buffer]" ..
  from Cons.prems(2) have valid: "\<forall>fb \<in> set fas. fb < length (field_objs h)" by simp
  then have valid1: "\<forall>fb \<in> set fas. fb < length (field_objs h1)" by (auto simp: e(3))
  from Cons.IH [OF cf [unfolded r2] valid1]
  have ih: "state_objs h2 = state_objs h1" "double_cells h2 = double_cells h1"
    "vector_cells h2 = vector_cells h1"
    "nas' = [length (field_objs h1) ..< length (field_objs h1) + length fas]"
    "field_objs h2 = field_objs h1 @ map (\<lambda>(fa, k). (field_objs h1 ! fa)\<lparr>Field_data := Some k\<rparr>)
        (zip fas [length (multivectors h1) ..< length (multivectors h1) + length fas])"
    "length (multivectors h2) = length (multivectors h1) + length fas"
    "take (length (multivectors h1)) (multivectors h2) = multivectors h1"
    by simp_all
  have cong: "map (\<lambda>(fa, k). (field_objs h1 ! fa)\<lparr>Field_data := Some k\<rparr>) (zip fas ks) =
      map (\<lambda>(fa, k). (field_objs h ! fa)\<lparr>Field_data := Some k\<rparr>) (zip fas ks)" for ks
  proof (rule map_cong [OF refl])
    fix x assume mem: "x \<in> set (zip fas ks)"
    obtain a b where x: "x = (a, b)" by (cases x)
    from mem x have "a \<in> set fas" by (auto dest: set_zip_leftD)
    with valid have "field_objs h1 ! a = field_objs h ! a"
      by (simp add: e(3) nth_append)
    then show "(case x of (fa, k) \<Rightarrow> (field_objs h1 ! fa)\<lparr>Field_data := Some k\<rparr>) =
        (case x of (fa, k) \<Rightarrow> (field_objs h ! fa)\<lparr>Field_data := Some k\<rparr>)"
      by (simp add: x)
  qed
  have upt: "[length (multivectors h) ..< length (multivectors h) + length (fa # fas)] =
      length (multivectors h) # [length (multivectors h1) ..< length (multivectors h1) + length fas]"
    using upt_add_Suc [of "length (multivectors h)" "length fas"] by (simp only: m1 length_append list.size add_Suc_right add_0_right length_Cons)
  have upt2: "[length (field_objs h) ..< length (field_objs h) + length (fa # fas)] =
      length (field_objs h) # [length (field_objs h1) ..< length (field_objs h1) + length fas]"
    using upt_add_Suc [of "length (field_objs h)" "length fas"] by (simp only: e(3) length_append list.size add_Suc_right add_0_right length_Cons)
  have tk: "take (length (multivectors h)) (multivectors h2) = multivectors h"
  proof -
    have "take (length (multivectors h)) (take (length (multivectors h1)) (multivectors h2)) =
        take (length (multivectors h)) (multivectors h1)"
      by (simp only: ih(7))
    moreover have "take (length (multivectors h)) (take (length (multivectors h1)) (multivectors h2)) =
        take (length (multivectors h)) (multivectors h2)"
      by (simp add: m1 min_def)
    moreover have "take (length (multivectors h)) (multivectors h1) = multivectors h"
      by (simp add: m1)
    ultimately show ?thesis by simp
  qed
  have c4: "nas = [length (field_objs h) ..< length (field_objs h) + length (fa # fas)]"
    by (simp only: upt2 nas e(2) ih(4))
  have "field_objs h2 = field_objs h1 @ map (\<lambda>(fa, k). (field_objs h ! fa)\<lparr>Field_data := Some k\<rparr>)
        (zip fas [length (multivectors h1) ..< length (multivectors h1) + length fas])"
    by (simp only: ih(5) cong)
  also have "\<dots> = field_objs h @ map (\<lambda>(fa, k). (field_objs h ! fa)\<lparr>Field_data := Some k\<rparr>)
        (zip (fa # fas) (length (multivectors h) #
           [length (multivectors h1) ..< length (multivectors h1) + length fas]))"
    by (simp only: e(3) append_assoc append_Cons append_Nil zip_Cons_Cons list.map prod.case)
  finally have c5: "field_objs h2 = field_objs h @ map (\<lambda>(fa, k). (field_objs h ! fa)\<lparr>Field_data := Some k\<rparr>)
        (zip (fa # fas) [length (multivectors h) ..< length (multivectors h) + length (fa # fas)])"
    by (simp only: upt)
  have c6: "length (multivectors h2) = length (multivectors h) + length (fa # fas)"
    by (simp add: ih(6) m1)
  have c123: "state_objs h2 = state_objs h" "double_cells h2 = double_cells h"
    "vector_cells h2 = vector_cells h"
    by (simp_all add: ih(1,2,3) e(5,6,7))
  show ?case
    unfolding h' using c123 c4 c5 c6 tk by blast
qed


lemma State_copy_effect:
  assumes ok: "State_copy h sa = (Inr b, h')" and s: "deref (state_objs h) sa = Some s"
    and valid: "\<forall>fa \<in> set (State_fields s). fa < length (field_objs h)"
  shows "b = length (state_objs h)"
    and "\<exists>c. state_objs h' = state_objs h @ [c] \<and> State_field_name_map c = State_field_name_map s \<and>
           State_fields c = [length (field_objs h) ..< length (field_objs h) + length (State_fields s)]"
    and "field_objs h' = field_objs h @ map (\<lambda>(fa, k). (field_objs h ! fa)\<lparr>Field_data := Some k\<rparr>)
        (zip (State_fields s) [length (multivectors h) ..< length (multivectors h) + length (State_fields s)])"
    and "length (multivectors h') = length (multivectors h) + length (State_fields s)"
    and "take (length (multivectors h)) (multivectors h') = multivectors h"
proof -
  from ok s obtain d v g where cells: "deref (double_cells h) (State_density s) = Some d"
    "deref (double_cells h) (State_viscosity s) = Some v" "deref (vector_cells h) (State_gravity s) = Some g"
    by (auto simp: State_copy_def split: option.splits)
  define h1 where "h1 = h\<lparr>double_cells := double_cells h @ [d, v], vector_cells := vector_cells h @ [g]\<rparr>"
  obtain r h2 where cf: "copy_fields h1 (State_fields s) = (r, h2)"
    by (cases "copy_fields h1 (State_fields s)")
  from ok s cells cf obtain fas where r: "r = Inr fas"
    by (cases r) (auto simp: State_copy_def Let_def h1_def)
  from valid have valid1: "\<forall>fa \<in> set (State_fields s). fa < length (field_objs h1)"
    by (simp add: h1_def)
  from copy_fields_effect [OF cf [unfolded r] valid1]
  have e: "state_objs h2 = state_objs h"
    "fas = [length (field_objs h) ..< length (field_objs h) + length (State_fields s)]"
    "field_objs h2 = field_objs h @ map (\<lambda>(fa, k). (field_objs h ! fa)\<lparr>Field_data := Some k\<rparr>)
        (zip (State_fields s) [length (multivectors h) ..< length (multivectors h) + length (State_fields s)])"
    "length (multivectors h2) = length (multivectors h) + length (State_fields s)"
    "take (length (multivectors h)) (multivectors h2) = multivectors h"
    by (simp_all add: h1_def)
  from ok s cells cf r have b: "b = length (state_objs h2)"
    and h': "h' = h2\<lparr>state_objs := state_objs h2 @
         [\<lparr>State_mesh_maps = State_mesh_maps s, State_parameter_list = [],
           State_density = length (double_cells h), State_viscosity = Suc (length (double_cells h)),
           State_gravity = length (vector_cells h), State_field_name_map = State_field_name_map s,
           State_fields = fas, State_time = State_time s, State_cycle = State_cycle s,
           State_status = State_status s\<rparr>]\<rparr>"
    by (simp_all add: State_copy_def Let_def h1_def)
  show "b = length (state_objs h)" by (simp add: b e(1))
  show "\<exists>c. state_objs h' = state_objs h @ [c] \<and> State_field_name_map c = State_field_name_map s \<and>
           State_fields c = [length (field_objs h) ..< length (field_objs h) + length (State_fields s)]"
    by (simp add: h' e(1) e(2) [symmetric])
  show "field_objs h' = field_objs h @ map (\<lambda>(fa, k). (field_objs h ! fa)\<lparr>Field_data := Some k\<rparr>)
        (zip (State_fields s) [length (multivectors h) ..< length (multivectors h) + length (State_fields s)])"
    by (simp add: h' e(3))
  show "length (multivectors h') = length (multivectors h) + length (State_fields s)"
    by (simp add: h' e(4))
  show "take (length (multivectors h)) (multivectors h') = multivectors h"
    by (simp add: h' e(5))
qed

lemma copied_object:
  assumes "i < length fas"
  shows "(xs @ map (\<lambda>(fa, k). (xs ! fa)\<lparr>Field_data := Some k\<rparr>) (zip fas [m ..< m + length fas])) ! (length xs + i)
         = (xs ! (fas ! i))\<lparr>Field_data := Some (m + i)\<rparr>"
  using assms by (simp add: nth_append)



lemma overwrite_values_same_shape:
  "map length old = map length new \<Longrightarrow> overwrite_values old new = new"
proof -
  assume shape: "map length old = map length new"
  then have len: "length old = length new" by (rule map_eq_imp_length_eq)
  have "map (\<lambda>(v, w). overwrite_vector v w) (zip old new) = new"
  proof (rule nth_equalityI)
    show "length (map (\<lambda>(v, w). overwrite_vector v w) (zip old new)) = length new"
      using len by simp
  next
    fix i assume "i < length (map (\<lambda>(v, w). overwrite_vector v w) (zip old new))"
    then have i: "i < length old" "i < length new" by simp_all
    from shape i have "length (old ! i) = length (new ! i)"
      by (metis nth_map)
    with i show "map (\<lambda>(v, w). overwrite_vector v w) (zip old new) ! i = new ! i"
      by (simp add: overwrite_vector_def)
  qed
  with len show ?thesis by (simp add: overwrite_values_def)
qed

lemma overwrite_values_shape:
  "map length (overwrite_values old new) = map length old"
proof -
  have v: "length (overwrite_vector v w) = length v" for v w :: "double list"
    by (simp add: overwrite_vector_def)
  have "map length (map (\<lambda>(v, w). overwrite_vector v w) (zip old new)) = map length (take (length new) old)"
    by (rule nth_equalityI) (simp_all add: v)
  then have "map length (overwrite_values old new) =
      map length (take (length new) old) @ map length (drop (length new) old)"
    unfolding overwrite_values_def by simp
  also have "\<dots> = map length (take (length new) old @ drop (length new) old)"
    by (simp only: map_append)
  also have "\<dots> = map length old"
    by (simp only: append_take_drop_id)
  finally show ?thesis .
qed










section \<open>What a call writes\<close>

lemma nth_update_proj: "p y = p (xs ! i) \<Longrightarrow> p (xs[i := y] ! x) = p (xs ! x)"
  by (cases "x = i"; cases "i < length xs") (simp_all add: list_update_beyond)

lemma uo_refl: "unchanged_outside h h S F M"
  by (simp add: unchanged_outside_def)

lemma uo_trans:
  assumes a: "unchanged_outside h h1 S F M" and b: "unchanged_outside h1 h2 S F M"
  shows "unchanged_outside h h2 S F M"
proof -
  have "state_objs h2 ! x = state_objs h ! x" if "x < length (state_objs h)" "x \<notin> S" for x
    using that a b by (simp add: unchanged_outside_def)
  moreover have "field_objs h2 ! x = field_objs h ! x" if "x < length (field_objs h)" "x \<notin> F" for x
    using that a b by (simp add: unchanged_outside_def)
  moreover have "multivectors h2 ! x = multivectors h ! x" if "x < length (multivectors h)" "x \<notin> M" for x
    using that a b by (simp add: unchanged_outside_def)
  ultimately show ?thesis
    using a b by (simp add: unchanged_outside_def)
qed

lemma uo_mono:
  "unchanged_outside h h' S F M \<Longrightarrow> S \<subseteq> S' \<Longrightarrow> F \<subseteq> F' \<Longrightarrow> M \<subseteq> M' \<Longrightarrow>
   unchanged_outside h h' S' F' M'"
  unfolding unchanged_outside_def by (meson subsetD)

lemma sp_refl: "same_pointers h h"
  by (simp add: same_pointers_def)

lemma sp_trans: "same_pointers h h1 \<Longrightarrow> same_pointers h1 h2 \<Longrightarrow> same_pointers h h2"
  by (simp add: same_pointers_def)

lemma uo_cells:
  "unchanged_outside h (h\<lparr>double_cells := d\<rparr>) S F M"
  "unchanged_outside h (h\<lparr>vector_cells := v\<rparr>) S F M"
  by (simp_all add: unchanged_outside_def)

lemma sp_cells:
  "same_pointers h (h\<lparr>double_cells := d\<rparr>)"
  "same_pointers h (h\<lparr>vector_cells := v\<rparr>)"
  by (simp_all add: same_pointers_def)

lemma uo_update_state: "unchanged_outside h (update_state h sa g) {sa} F M"
  by (simp add: unchanged_outside_def)

lemma sp_update_state:
  "State_fields (g (state_objs h ! sa)) = State_fields (state_objs h ! sa) \<Longrightarrow>
   same_pointers h (update_state h sa g)"
  by (simp add: same_pointers_def nth_update_proj)

lemma uo_update_field: "unchanged_outside h (update_field h fa g) S {fa} M"
  by (simp add: unchanged_outside_def)

lemma sp_update_field:
  "Field_data (g (field_objs h ! fa)) = Field_data (field_objs h ! fa) \<Longrightarrow>
   same_pointers h (update_field h fa g)"
  by (simp add: same_pointers_def nth_update_proj)

lemma uo_Field_write: "unchanged_outside h (snd (Field_write h fa w)) S {fa} (buffer_of h fa)"
  by (auto simp: Field_write_def unchanged_outside_def buffer_of_def deref_def
      split: option.splits sum.splits)

lemma sp_Field_write: "same_pointers h (snd (Field_write h fa w))"
  by (auto simp: Field_write_def same_pointers_def nth_update_proj split: option.splits sum.splits)

lemma uo_then_do:
  assumes "unchanged_outside h (snd r) S F M"
    and "\<And>h1. r = (None, h1) \<Longrightarrow> unchanged_outside h (snd (k h1)) S F M"
  shows "unchanged_outside h (snd (then_do r k)) S F M"
  using assms by (cases r) (auto simp: then_do_def split: option.splits)

lemma sp_then_do:
  assumes "same_pointers h (snd r)"
    and "\<And>h1. r = (None, h1) \<Longrightarrow> same_pointers h (snd (k h1))"
  shows "same_pointers h (snd (then_do r k))"
  using assms by (cases r) (auto simp: then_do_def split: option.splits)


lemma sp_fields_of: "same_pointers h h' \<Longrightarrow> fields_of h' sa = fields_of h sa"
  by (simp add: same_pointers_def fields_of_def deref_def)

lemma sp_buffer_of: "same_pointers h h' \<Longrightarrow> buffer_of h' fa = buffer_of h fa"
  by (simp add: same_pointers_def buffer_of_def deref_def)

lemma sp_buffers_of: "same_pointers h h' \<Longrightarrow> buffers_of h' sa = buffers_of h sa"
  by (simp add: buffers_of_def sp_fields_of sp_buffer_of)

lemma frame_for_each:
  assumes body: "\<And>h fa. unchanged_outside h (snd (body h fa)) {} {fa} (buffer_of h fa) \<and>
                         same_pointers h (snd (body h fa))"
  shows "unchanged_outside h (snd (for_each body h fas)) {} (set fas) (\<Union>fa \<in> set fas. buffer_of h fa) \<and>
         same_pointers h (snd (for_each body h fas))"
proof (induction fas arbitrary: h)
  case Nil
  then show ?case by (simp add: uo_refl sp_refl)
next
  case (Cons fa fas)
  obtain r h1 where b: "body h fa = (r, h1)" by (cases "body h fa")
  from body [of h fa] b have u1: "unchanged_outside h h1 {} {fa} (buffer_of h fa)"
    and s1: "same_pointers h h1" by simp_all
  show ?case
  proof (cases r)
    case (Some e)
    with b u1 s1 show ?thesis
      by (auto simp: then_do_def intro: uo_mono)
  next
    case None
    from Cons.IH [of h1]
    have u2: "unchanged_outside h1 (snd (for_each body h1 fas)) {} (set fas) (\<Union>fb \<in> set fas. buffer_of h fb)"
      and s2: "same_pointers h1 (snd (for_each body h1 fas))"
      by (simp_all add: sp_buffer_of [OF s1])
    have "unchanged_outside h (snd (for_each body h1 fas)) {} (set (fa # fas)) (\<Union>fb \<in> set (fa # fas). buffer_of h fb)"
      by (rule uo_trans [OF uo_mono [OF u1] uo_mono [OF u2]]) auto
    with None b sp_trans [OF s1 s2] show ?thesis by (simp add: then_do_def)
  qed
qed

lemma frame_Field_writers:
  "unchanged_outside h (snd (Field_set_data_multivector h fa pk mv)) {} {fa} (buffer_of h fa) \<and>
   same_pointers h (snd (Field_set_data_multivector h fa pk mv))"
  "unchanged_outside h (snd (Field_set_data_vector h fa pk v)) {} {fa} (buffer_of h fa) \<and>
   same_pointers h (snd (Field_set_data_vector h fa pk v))"
  "unchanged_outside h (snd (Field_set_data_array h fa pk u)) {} {fa} (buffer_of h fa) \<and>
   same_pointers h (snd (Field_set_data_array h fa pk u))"
  "unchanged_outside h (snd (Field_set_data_scalar h fa pk x)) {} {fa} (buffer_of h fa) \<and>
   same_pointers h (snd (Field_set_data_scalar h fa pk x))"
  "unchanged_outside h (snd (Field_set_data_array_block h fa pk u b)) {} {fa} (buffer_of h fa) \<and>
   same_pointers h (snd (Field_set_data_array_block h fa pk u b))"
  "unchanged_outside h (snd (Field_set_data_scalar_block h fa pk x b)) {} {fa} (buffer_of h fa) \<and>
   same_pointers h (snd (Field_set_data_scalar_block h fa pk x b))"
  "unchanged_outside h (snd (Field_set_vector_data h fa pk u b)) {} {fa} (buffer_of h fa) \<and>
   same_pointers h (snd (Field_set_vector_data h fa pk u b))"
  by (simp_all add: Field_set_data_multivector_def Field_set_data_vector_def
      Field_set_data_array_def Field_set_data_scalar_def Field_set_data_array_block_def
      Field_set_data_scalar_block_def Field_set_vector_data_def uo_Field_write sp_Field_write)

lemma frame_Field_attributes:
  "unchanged_outside h (snd (Field_set_owner h fa own)) {} {fa} (buffer_of h fa) \<and>
   same_pointers h (snd (Field_set_owner h fa own))"
  "unchanged_outside h (snd (Field_set_initialized h fa)) {} {fa} (buffer_of h fa) \<and>
   same_pointers h (snd (Field_set_initialized h fa))"
  "unchanged_outside h (snd (Field_set_subfield_names h fa ns)) {} {fa} (buffer_of h fa) \<and>
   same_pointers h (snd (Field_set_subfield_names h fa ns))"
  by (simp_all add: Field_set_owner_def Field_set_initialized_def Field_set_subfield_names_def
      uo_update_field sp_update_field uo_refl sp_refl split: option.splits)

lemma uo_Field_set_data_pointer:
  "unchanged_outside h (snd (Field_set_data_pointer h fa pk p)) {} {fa} (buffer_of h fa)"
  by (simp add: Field_set_data_pointer_def uo_update_field uo_refl split: option.splits)

lemma frame_Field_assign:
  "unchanged_outside h (snd (Field_assign h d s)) {} {d} (buffer_of h d) \<and>
   same_pointers h (snd (Field_assign h d s))"
  by (auto simp: Field_assign_def unchanged_outside_def same_pointers_def buffer_of_def deref_def
      nth_update_proj nth_list_update split: option.splits)

lemma frame_then_do:
  assumes "unchanged_outside h (snd r) S F M \<and> same_pointers h (snd r)"
    and "\<And>h1. r = (None, h1) \<Longrightarrow> unchanged_outside h (snd (k h1)) S F M \<and> same_pointers h (snd (k h1))"
  shows "unchanged_outside h (snd (then_do r k)) S F M \<and> same_pointers h (snd (then_do r k))"
  using assms by (cases r) (auto simp: then_do_def split: option.splits)

lemma frame_step:
  assumes first: "unchanged_outside h h1 {} {fa} (buffer_of h fa) \<and> same_pointers h h1"
    and second: "unchanged_outside h1 h2 {} {fa} (buffer_of h1 fa) \<and> same_pointers h1 h2"
  shows "unchanged_outside h h2 {} {fa} (buffer_of h fa) \<and> same_pointers h h2"
proof -
  from first have s1: "same_pointers h h1" by simp
  from second have "unchanged_outside h1 h2 {} {fa} (buffer_of h fa)"
    by (simp add: sp_buffer_of [OF s1])
  with first second show ?thesis by (blast intro: uo_trans sp_trans)
qed

lemma frame_init_field_global:
  "unchanged_outside h (snd (init_field_global pl h fa)) {} {fa} (buffer_of h fa) \<and>
   same_pointers h (snd (init_field_global pl h fa))"
proof -
  have write_then_mark: "unchanged_outside h (snd (then_do (Field_set_data_array h fa own u)
        (\<lambda>h. Field_set_initialized h fa))) {} {fa} (buffer_of h fa) \<and>
      same_pointers h (snd (then_do (Field_set_data_array h fa own u) (\<lambda>h. Field_set_initialized h fa)))"
    for own u
  proof (cases "Field_set_data_array h fa own u")
    case (Pair r h1)
    from frame_Field_writers(3) [of h fa own u] Pair
    have f1: "unchanged_outside h h1 {} {fa} (buffer_of h fa) \<and> same_pointers h h1" by simp
    show ?thesis
    proof (cases r)
      case None
      with Pair frame_step [OF f1 frame_Field_attributes(2) [of h1 fa]] show ?thesis
        by (simp add: then_do_def)
    next
      case (Some e)
      with Pair f1 show ?thesis by (simp add: then_do_def)
    qed
  qed
  show ?thesis
    unfolding init_field_global_def
    by (simp add: uo_refl sp_refl write_then_mark split: option.splits sum.splits)
qed

lemma frame_init_field_block:
  "unchanged_outside h (snd (init_field_block sub b h fa)) {} {fa} (buffer_of h fa) \<and>
   same_pointers h (snd (init_field_block sub b h fa))"
proof -
  have mark_after: "unchanged_outside h (snd (then_do r (\<lambda>h. Field_set_initialized h fa))) {} {fa} (buffer_of h fa) \<and>
      same_pointers h (snd (then_do r (\<lambda>h. Field_set_initialized h fa)))"
    if f1: "unchanged_outside h (snd r) {} {fa} (buffer_of h fa) \<and> same_pointers h (snd r)" for r
  proof (cases r)
    case (Pair e h1)
    with f1 have f1': "unchanged_outside h h1 {} {fa} (buffer_of h fa) \<and> same_pointers h h1" by simp
    show ?thesis
    proof (cases e)
      case None
      with Pair frame_step [OF f1' frame_Field_attributes(2) [of h1 fa]] show ?thesis
        by (simp add: then_do_def)
    next
      case (Some e')
      with Pair f1' show ?thesis by (simp add: then_do_def)
    qed
  qed
  show ?thesis
    unfolding init_field_block_def
    by (simp add: uo_refl sp_refl mark_after frame_Field_writers split: option.splits sum.splits)
qed

lemma record_in_fields: "get_field_record h this n = Inr fa \<Longrightarrow> fa \<in> fields_of h this"
  by (auto simp: get_field_record_Inr_iff fields_of_def)

lemma buffer_in_buffers: "fa \<in> fields_of h this \<Longrightarrow> buffer_of h fa \<subseteq> buffers_of h this"
  by (auto simp: buffers_of_def)

lemma writes_own_refl: "writes_own this h h"
  by (simp add: writes_own_def uo_refl sp_refl)

lemma writes_own_trans:
  assumes a: "writes_own this h h1" and b: "writes_own this h1 h2"
  shows "writes_own this h h2"
proof -
  from a have s1: "same_pointers h h1" by (simp add: writes_own_def)
  from b have "unchanged_outside h1 h2 {this} (fields_of h this) (buffers_of h this)"
    by (simp add: writes_own_def sp_fields_of [OF s1] sp_buffers_of [OF s1])
  with a b show ?thesis
    unfolding writes_own_def by (blast intro: uo_trans sp_trans)
qed

lemma writes_own_then_do:
  assumes "writes_own this h (snd r)"
    and "\<And>h1. r = (None, h1) \<Longrightarrow> writes_own this h1 (snd (k h1))"
  shows "writes_own this h (snd (then_do r k))"
proof (cases r)
  case (Pair e h1)
  show ?thesis
  proof (cases e)
    case None
    with Pair assms(1) assms(2) [of h1] show ?thesis
      by (auto simp: then_do_def intro: writes_own_trans)
  next
    case (Some e')
    with Pair assms(1) show ?thesis by (simp add: then_do_def)
  qed
qed

lemma writes_own_field:
  assumes "fa \<in> fields_of h this"
    and "unchanged_outside h h' {} {fa} (buffer_of h fa) \<and> same_pointers h h'"
  shows "writes_own this h h'"
  unfolding writes_own_def
  using assms buffer_in_buffers [OF assms(1)] by (auto intro: uo_mono)

lemma writes_own_for_each:
  assumes body: "\<And>h fa. unchanged_outside h (snd (body h fa)) {} {fa} (buffer_of h fa) \<and>
                         same_pointers h (snd (body h fa))"
    and sub: "set fas \<subseteq> fields_of h this"
  shows "writes_own this h (snd (for_each body h fas))"
proof -
  from frame_for_each [of body h fas, OF body]
  have u: "unchanged_outside h (snd (for_each body h fas)) {} (set fas) (\<Union>fa \<in> set fas. buffer_of h fa)"
    and s: "same_pointers h (snd (for_each body h fas))" by simp_all
  have "(\<Union>fa \<in> set fas. buffer_of h fa) \<subseteq> buffers_of h this"
    using sub by (auto simp: buffers_of_def)
  with u sub have "unchanged_outside h (snd (for_each body h fas)) {this} (fields_of h this) (buffers_of h this)"
    by (auto intro: uo_mono)
  with s show ?thesis by (simp add: writes_own_def)
qed

lemma writes_own_update_state:
  "State_fields (g (state_objs h ! this)) = State_fields (state_objs h ! this) \<Longrightarrow>
   writes_own this h (update_state h this g)"
  by (simp add: writes_own_def uo_update_state sp_update_state)

lemma writes_own_cells:
  "writes_own this h (snd (copy_double_cell h d s))"
  "writes_own this h (snd (copy_vector_cell h d s))"
  "writes_own this h (snd (set_double_cell h d x))"
  by (simp_all add: copy_double_cell_def copy_vector_cell_def set_double_cell_def writes_own_def
      uo_cells sp_cells uo_refl sp_refl split: option.splits)

lemma writes_own_assign_fields:
  "fst ` set ps \<subseteq> fields_of h this \<Longrightarrow> writes_own this h (snd (assign_fields h ps))"
proof (induction ps arbitrary: h)
  case Nil
  then show ?case by (simp add: writes_own_refl)
next
  case (Cons p ps)
  obtain d s where p: "p = (d, s)" by (cases p)
  from Cons.prems p have d: "d \<in> fields_of h this" and rest: "fst ` set ps \<subseteq> fields_of h this"
    by auto
  have first: "writes_own this h (snd (Field_assign h d s))"
    by (rule writes_own_field [OF d frame_Field_assign])
  show ?case
    unfolding p assign_fields.simps
  proof (rule writes_own_then_do [OF first])
    fix h1 assume "Field_assign h d s = (None, h1)"
    with first have "same_pointers h h1" by (simp add: writes_own_def)
    from sp_fields_of [OF this] rest have "fst ` set ps \<subseteq> fields_of h1 this" by simp
    then show "writes_own this h1 (snd (assign_fields h1 ps))" by (rule Cons.IH)
  qed
qed

lemma writes_own_State_assign: "writes_own this h (snd (State_assign h this sa))"
proof (cases "deref (state_objs h) this")
  case None
  then show ?thesis by (simp add: State_assign_def writes_own_refl)
next
  case t: (Some t)
  then have t_eq: "state_objs h ! this = t" by (simp add: deref_Some_iff)
  show ?thesis
  proof (cases "deref (state_objs h) sa")
    case None
    then show ?thesis using t by (simp add: State_assign_def writes_own_refl)
  next
    case s: (Some s)
    have fields: "fields_of h this = set (State_fields t)"
      using t by (simp add: fields_of_def)
    have loop: "writes_own this h1 (snd (assign_fields h1 (zip (State_fields t) (State_fields s))))"
      if "fields_of h1 this = fields_of h this" for h1
    proof (rule writes_own_assign_fields)
      show "fst ` set (zip (State_fields t) (State_fields s)) \<subseteq> fields_of h1 this"
        using that fields by (auto dest: set_zip_leftD)
    qed
    have keep: "fields_of h2 this = fields_of h this"
      if "fields_of h1 this = fields_of h this" "writes_own this h1 h2" for h1 h2
      using that sp_fields_of [of h1 h2 this] by (simp add: writes_own_def)
    have chain: "writes_own this h
        (snd (then_do (None, update_state h this (\<lambda>t. t\<lparr>State_mesh_maps := State_mesh_maps s\<rparr>)) (\<lambda>h.
            then_do (copy_double_cell h (State_density t) (State_density s)) (\<lambda>h.
            then_do (copy_double_cell h (State_viscosity t) (State_viscosity s)) (\<lambda>h.
            then_do (copy_vector_cell h (State_gravity t) (State_gravity s)) (\<lambda>h.
            then_do (None, update_state h this (\<lambda>t. t\<lparr>State_field_name_map := State_field_name_map s\<rparr>)) (\<lambda>h.
            then_do (assign_fields h (zip (State_fields t) (State_fields s))) (\<lambda>h.
            (None, update_state h this (\<lambda>t. t\<lparr>State_time := State_time s,
                                               State_cycle := State_cycle s,
                                               State_status := State_status s\<rparr>))))))))))"
    proof -
      define h1 where "h1 = update_state h this (\<lambda>t. t\<lparr>State_mesh_maps := State_mesh_maps s\<rparr>)"
      have w1: "writes_own this h h1"
        unfolding h1_def by (rule writes_own_update_state) simp
      note k1 = keep [OF refl w1]
      have rest: "writes_own this h1
        (snd (then_do (copy_double_cell h1 (State_density t) (State_density s)) (\<lambda>h.
            then_do (copy_double_cell h (State_viscosity t) (State_viscosity s)) (\<lambda>h.
            then_do (copy_vector_cell h (State_gravity t) (State_gravity s)) (\<lambda>h.
            then_do (None, update_state h this (\<lambda>t. t\<lparr>State_field_name_map := State_field_name_map s\<rparr>)) (\<lambda>h.
            then_do (assign_fields h (zip (State_fields t) (State_fields s))) (\<lambda>h.
            (None, update_state h this (\<lambda>t. t\<lparr>State_time := State_time s,
                                               State_cycle := State_cycle s,
                                               State_status := State_status s\<rparr>)))))))))"
      proof (rule writes_own_then_do [OF writes_own_cells(1)])
        fix h2 assume c2: "copy_double_cell h1 (State_density t) (State_density s) = (None, h2)"
        from writes_own_cells(1) [of this h1 "State_density t" "State_density s"] c2
        have w2: "writes_own this h1 h2" by simp
        note k2 = keep [OF k1 w2]
        show "writes_own this h2
          (snd (then_do (copy_double_cell h2 (State_viscosity t) (State_viscosity s)) (\<lambda>h.
            then_do (copy_vector_cell h (State_gravity t) (State_gravity s)) (\<lambda>h.
            then_do (None, update_state h this (\<lambda>t. t\<lparr>State_field_name_map := State_field_name_map s\<rparr>)) (\<lambda>h.
            then_do (assign_fields h (zip (State_fields t) (State_fields s))) (\<lambda>h.
            (None, update_state h this (\<lambda>t. t\<lparr>State_time := State_time s,
                                               State_cycle := State_cycle s,
                                               State_status := State_status s\<rparr>))))))))"
        proof (rule writes_own_then_do [OF writes_own_cells(1)])
          fix h3 assume c3: "copy_double_cell h2 (State_viscosity t) (State_viscosity s) = (None, h3)"
          from writes_own_cells(1) [of this h2 "State_viscosity t" "State_viscosity s"] c3
          have w3: "writes_own this h2 h3" by simp
          note k3 = keep [OF k2 w3]
          show "writes_own this h3
            (snd (then_do (copy_vector_cell h3 (State_gravity t) (State_gravity s)) (\<lambda>h.
              then_do (None, update_state h this (\<lambda>t. t\<lparr>State_field_name_map := State_field_name_map s\<rparr>)) (\<lambda>h.
              then_do (assign_fields h (zip (State_fields t) (State_fields s))) (\<lambda>h.
              (None, update_state h this (\<lambda>t. t\<lparr>State_time := State_time s,
                                                 State_cycle := State_cycle s,
                                                 State_status := State_status s\<rparr>)))))))"
          proof (rule writes_own_then_do [OF writes_own_cells(2)])
            fix h4 assume c4: "copy_vector_cell h3 (State_gravity t) (State_gravity s) = (None, h4)"
            from writes_own_cells(2) [of this h3 "State_gravity t" "State_gravity s"] c4
            have w4: "writes_own this h3 h4" by simp
            note k4 = keep [OF k3 w4]
            define h5 where "h5 = update_state h4 this (\<lambda>t. t\<lparr>State_field_name_map := State_field_name_map s\<rparr>)"
            have w5: "writes_own this h4 h5"
              unfolding h5_def by (rule writes_own_update_state) simp
            note k5 = keep [OF k4 w5]
            have w6: "writes_own this h5 (snd (then_do (assign_fields h5 (zip (State_fields t) (State_fields s))) (\<lambda>h.
                (None, update_state h this (\<lambda>t. t\<lparr>State_time := State_time s,
                                                   State_cycle := State_cycle s,
                                                   State_status := State_status s\<rparr>)))))"
            proof (rule writes_own_then_do [OF loop [OF k5]])
              fix h6
              show "writes_own this h6 (snd (None, update_state h6 this (\<lambda>t. t\<lparr>State_time := State_time s,
                                                   State_cycle := State_cycle s,
                                                   State_status := State_status s\<rparr>)))"
                by (simp add: writes_own_update_state)
            qed
            from writes_own_trans [OF w5 w6]
            show "writes_own this h4
              (snd (then_do (None, update_state h4 this (\<lambda>t. t\<lparr>State_field_name_map := State_field_name_map s\<rparr>)) (\<lambda>h.
                then_do (assign_fields h (zip (State_fields t) (State_fields s))) (\<lambda>h.
                (None, update_state h this (\<lambda>t. t\<lparr>State_time := State_time s,
                                                   State_cycle := State_cycle s,
                                                   State_status := State_status s\<rparr>))))))"
              by (simp add: then_do_def h5_def)
          qed
        qed
      qed
      from writes_own_trans [OF w1 rest] show ?thesis
        by (simp add: then_do_def h1_def)
    qed
    show ?thesis
      using t s chain by (simp add: State_assign_def writes_own_refl)
  qed
qed

lemma writes_own_seq:
  assumes "writes_own this h (snd r)"
    and "\<And>h1. r = (None, h1) \<Longrightarrow> fields_of h1 this = fields_of h this \<Longrightarrow>
           writes_own this h1 (snd (k h1))"
  shows "writes_own this h (snd (then_do r k))"
proof (rule writes_own_then_do [OF assms(1)])
  fix h1 assume r: "r = (None, h1)"
  with assms(1) have "same_pointers h h1" by (simp add: writes_own_def)
  from assms(2) [OF r sp_fields_of [OF this]] show "writes_own this h1 (snd (k h1))" .
qed

lemma writes_own_cell_updates:
  "writes_own this h (h\<lparr>double_cells := d\<rparr>)"
  "writes_own this h (h\<lparr>vector_cells := v\<rparr>)"
  by (simp_all add: writes_own_def uo_cells sp_cells)

lemma writes_own_scalars:
  "writes_own this h (snd (set_density h this x))"
  "writes_own this h (snd (set_viscosity h this x))"
  "writes_own this h (snd (set_gravity_array h this g))"
  "writes_own this h (snd (set_gravity_vector h this g))"
  by (simp_all add: set_density_def set_viscosity_def set_gravity_array_def set_gravity_vector_def
      writes_own_cells writes_own_refl writes_own_cell_updates split: option.splits)

lemma writes_own_init_global_loop:
  "set fas \<subseteq> fields_of h this \<Longrightarrow> writes_own this h (snd (for_each (init_field_global pl) h fas))"
  by (rule writes_own_for_each [OF frame_init_field_global])

lemma writes_own_init_block_loop:
  "set fas \<subseteq> fields_of h this \<Longrightarrow> writes_own this h (snd (for_each (init_field_block sub b) h fas))"
  by (rule writes_own_for_each [OF frame_init_field_block])

lemma writes_own_init_block: "writes_own this h (snd (init_block h this nb))"
proof (cases "deref (state_objs h) this")
  case None
  then show ?thesis by (simp add: init_block_def writes_own_refl)
next
  case (Some s)
  then have lt: "this < length (state_objs h)" and s_eq: "state_objs h ! this = s"
    by (simp_all add: deref_Some_iff)
  have step: "writes_own this h (snd (for_each (init_field_block sub b)
      (update_state h this (\<lambda>s. s\<lparr>State_parameter_list := pl'\<rparr>)) (State_fields s)))" for sub b pl'
  proof -
    define h1 where "h1 = update_state h this (\<lambda>s. s\<lparr>State_parameter_list := pl'\<rparr>)"
    have w1: "writes_own this h h1"
      unfolding h1_def by (rule writes_own_update_state) simp
    have "fields_of h1 this = set (State_fields s)"
      using lt s_eq by (simp add: h1_def fields_of_def deref_def)
    then have "writes_own this h1 (snd (for_each (init_field_block sub b) h1 (State_fields s)))"
      by (intro writes_own_init_block_loop) simp
    from writes_own_trans [OF w1 this] show ?thesis by (simp add: h1_def)
  qed
  have upd: "writes_own this h (update_state h this (\<lambda>s. s\<lparr>State_parameter_list := pl'\<rparr>))" for pl'
    by (rule writes_own_update_state) simp
  show ?thesis
    using Some
    by (simp add: init_block_def Let_def writes_own_refl step upd split: sum.splits prod.splits)
qed

lemma writes_own_init_blocks: "writes_own this h (snd (init_blocks h this nbs))"
proof (induction nbs arbitrary: h)
  case Nil
  then show ?case by (simp add: writes_own_refl)
next
  case (Cons nb nbs)
  show ?case unfolding init_blocks.simps
    by (rule writes_own_then_do [OF writes_own_init_block]) (rule Cons.IH)
qed

lemma writes_own_initialize: "writes_own this h (snd (initialize h this))"
proof (cases "deref (state_objs h) this")
  case None
  then show ?thesis
    by (simp add: initialize_def initialize_from_parameter_list_def writes_own_refl)
next
  case (Some s)
  have fields: "fields_of h this = set (State_fields s)"
    using Some by (simp add: fields_of_def)
  have dens: "writes_own this h1 (snd (if c then (case g of Inl e \<Rightarrow> (Some e, h1) | Inr u \<Rightarrow> set_density h1 this u)
      else (None, h1)))" for h1 c g
    by (simp add: writes_own_refl writes_own_scalars split: sum.splits)
  have visc: "writes_own this h1 (snd (if c then (case g of Inl e \<Rightarrow> (Some e, h1) | Inr u \<Rightarrow> set_viscosity h1 this u)
      else (None, h1)))" for h1 c g
    by (simp add: writes_own_refl writes_own_scalars split: sum.splits)
  have blocks: "writes_own this h1 (snd (case g of Inl e \<Rightarrow> (Some e, h1)
      | Inr num_blocks \<Rightarrow> init_blocks h1 this [1..num_blocks]))" for h1 g
    by (simp add: writes_own_refl writes_own_init_blocks split: sum.splits)
  have chain: "writes_own this h
      (snd (then_do (set_gravity_array h this [gx, gy, gz]) (\<lambda>h.
        then_do (if isParameter pl ''Constant water density'' then
                   (case get_double pl ''Constant water density'' of
                      Inl e \<Rightarrow> (Some e, h)
                    | Inr u \<Rightarrow> set_density h this u)
                 else (None, h)) (\<lambda>h.
        then_do (if isParameter pl ''Constant viscosity'' then
                   (case get_double pl ''Constant viscosity'' of
                      Inl e \<Rightarrow> (Some e, h)
                    | Inr u \<Rightarrow> set_viscosity h this u)
                 else (None, h)) (\<lambda>h.
        then_do (for_each (init_field_global pl) h (State_fields s)) (\<lambda>h.
        (case get_int pl ''Number of mesh blocks'' of
           Inl e \<Rightarrow> (Some e, h)
         | Inr num_blocks \<Rightarrow> init_blocks h this [1..num_blocks])))))))" for gx gy gz pl
  proof (rule writes_own_seq [OF writes_own_scalars(3)])
    fix h1 assume f1: "fields_of h1 this = fields_of h this"
    show "writes_own this h1
      (snd (then_do (if isParameter pl ''Constant water density'' then
                   (case get_double pl ''Constant water density'' of
                      Inl e \<Rightarrow> (Some e, h1)
                    | Inr u \<Rightarrow> set_density h1 this u)
                 else (None, h1)) (\<lambda>h.
        then_do (if isParameter pl ''Constant viscosity'' then
                   (case get_double pl ''Constant viscosity'' of
                      Inl e \<Rightarrow> (Some e, h)
                    | Inr u \<Rightarrow> set_viscosity h this u)
                 else (None, h)) (\<lambda>h.
        then_do (for_each (init_field_global pl) h (State_fields s)) (\<lambda>h.
        (case get_int pl ''Number of mesh blocks'' of
           Inl e \<Rightarrow> (Some e, h)
         | Inr num_blocks \<Rightarrow> init_blocks h this [1..num_blocks]))))))"
    proof (rule writes_own_seq [OF dens])
      fix h2 assume f2: "fields_of h2 this = fields_of h1 this"
      show "writes_own this h2
        (snd (then_do (if isParameter pl ''Constant viscosity'' then
                   (case get_double pl ''Constant viscosity'' of
                      Inl e \<Rightarrow> (Some e, h2)
                    | Inr u \<Rightarrow> set_viscosity h2 this u)
                 else (None, h2)) (\<lambda>h.
          then_do (for_each (init_field_global pl) h (State_fields s)) (\<lambda>h.
          (case get_int pl ''Number of mesh blocks'' of
             Inl e \<Rightarrow> (Some e, h)
           | Inr num_blocks \<Rightarrow> init_blocks h this [1..num_blocks])))))"
      proof (rule writes_own_seq [OF visc])
        fix h3 assume f3: "fields_of h3 this = fields_of h2 this"
        have sub: "set (State_fields s) \<subseteq> fields_of h3 this"
          by (simp add: f3 f2 f1 fields)
        show "writes_own this h3
          (snd (then_do (for_each (init_field_global pl) h3 (State_fields s)) (\<lambda>h.
            (case get_int pl ''Number of mesh blocks'' of
               Inl e \<Rightarrow> (Some e, h)
             | Inr num_blocks \<Rightarrow> init_blocks h this [1..num_blocks]))))"
          by (rule writes_own_then_do [OF writes_own_init_global_loop [OF sub]]) (rule blocks)
      qed
    qed
  qed
  show ?thesis
    using Some
    by (simp add: initialize_def initialize_from_parameter_list_def Let_def writes_own_refl chain
        split: sum.splits)
qed

lemma writes_own_uo:
  "writes_own this h h' \<Longrightarrow> unchanged_outside h h' {this} (fields_of h this) (buffers_of h this)"
  by (simp add: writes_own_def)

lemma uo_own_field:
  assumes "get_field_record h this n = Inr fa"
    and "unchanged_outside h h' {} {fa} (buffer_of h fa)"
  shows "unchanged_outside h h' {this} (fields_of h this) (buffers_of h this)"
  using assms(2) record_in_fields [OF assms(1)] buffer_in_buffers [OF record_in_fields [OF assms(1)]]
  by (auto intro: uo_mono)

lemma uo_require_field:
  "unchanged_outside h (snd (require_field h this n loc own nd)) {this} (fields_of h this) (buffers_of h this)"
proof (cases "deref (state_objs h) this")
  case None
  then show ?thesis by (simp add: require_field_def uo_refl)
next
  case s: (Some s)
  show ?thesis
  proof (cases "State_field_name_map s n")
    case None
    show ?thesis
      using require_field_new_heap [OF s None, of loc own nd]
      by (auto simp: unchanged_outside_def nth_append require_field_new [OF s None] Field_new_def Let_def)
  next
    case (Some i)
    show ?thesis
    proof (cases "get_field_record h this n")
      case (Inl e)
      then show ?thesis using s Some by (simp add: require_field_def uo_refl)
    next
      case (Inr fa)
      have "unchanged_outside h (snd (Field_set_owner h fa own')) {this} (fields_of h this) (buffers_of h this)"
        for own'
        using frame_Field_attributes(1) [of h fa own'] by (intro uo_own_field [OF Inr]) simp
      then show ?thesis
        using s Some Inr by (simp add: require_field_def uo_refl split: option.splits)
    qed
  qed
qed

lemma uo_field_setters:
  "unchanged_outside h (snd (set_field_pointer h this n pk p)) {this} (fields_of h this) (buffers_of h this)"
  "unchanged_outside h (snd (set_field_multivector h this n pk mv)) {this} (fields_of h this) (buffers_of h this)"
  "unchanged_outside h (snd (set_field_vector h this n pk v)) {this} (fields_of h this) (buffers_of h this)"
  "unchanged_outside h (snd (set_field_array h this n pk u)) {this} (fields_of h this) (buffers_of h this)"
  "unchanged_outside h (snd (set_field_scalar h this n pk x)) {this} (fields_of h this) (buffers_of h this)"
  "unchanged_outside h (snd (set_field_array_block h this n pk u b)) {this} (fields_of h this) (buffers_of h this)"
  "unchanged_outside h (snd (set_field_scalar_block h this n pk x b)) {this} (fields_of h this) (buffers_of h this)"
  "unchanged_outside h (snd (set_vector_field h this n pk u b)) {this} (fields_of h this) (buffers_of h this)"
  "unchanged_outside h (snd (set_subfield_names h this n ns)) {this} (fields_of h this) (buffers_of h this)"
  by (cases "get_field_record h this n";
      simp add: set_field_pointer_def set_field_multivector_def set_field_vector_def
        set_field_array_def set_field_scalar_def set_field_array_block_def
        set_field_scalar_block_def set_vector_field_def set_subfield_names_def uo_refl
        uo_own_field uo_Field_set_data_pointer frame_Field_writers frame_Field_attributes)+

lemma apply_op_footprint:
  "unchanged_outside h (snd (apply_op h this op)) {this} (fields_of h this) (buffers_of h this)"
  by (cases op)
    (simp_all add: uo_require_field uo_field_setters writes_own_uo [OF writes_own_State_assign]
      writes_own_uo [OF writes_own_initialize] writes_own_uo [OF writes_own_scalars(1)]
      writes_own_uo [OF writes_own_scalars(2)] writes_own_uo [OF writes_own_scalars(3)]
      writes_own_uo [OF writes_own_scalars(4)])

section \<open>Copy construction\<close>

lemma field_values_unchanged:
  assumes uo: "unchanged_outside h h' S F M"
    and b: "b < length (state_objs h)" "b \<notin> S"
    and f: "fields_of h b \<inter> F = {}" "\<forall>fa \<in> fields_of h b. fa < length (field_objs h)"
    and m: "buffers_of h b \<inter> M = {}" "buffers_allocated h b"
  shows "field_values h' b n = field_values h b n"
proof -
  from uo b have st: "state_objs h' ! b = state_objs h ! b" and lt: "b < length (state_objs h')"
    by (auto simp: unchanged_outside_def)
  have rec: "get_field_record h' b n = get_field_record h b n"
    using b(1) lt st by (simp add: get_field_record_def deref_def)
  show ?thesis
  proof (cases "get_field_record h b n")
    case (Inl e)
    then show ?thesis by (simp add: field_values_def get_field_def rec)
  next
    case (Inr fa)
    from record_in_fields [OF Inr] have fa: "fa \<in> fields_of h b" .
    with f have v: "fa < length (field_objs h)" and nf: "fa \<notin> F" by auto
    with uo have obj: "field_objs h' ! fa = field_objs h ! fa" and v': "fa < length (field_objs h')"
      by (auto simp: unchanged_outside_def)
    show ?thesis
    proof (cases "Field_data (field_objs h ! fa)")
      case None
      then show ?thesis
        using v v' obj by (simp add: field_values_def get_field_def rec Inr Field_get_data_def deref_def)
    next
      case (Some d)
      with v have "d \<in> buffer_of h fa"
        by (simp add: buffer_of_def deref_def)
      with fa have "d \<in> buffers_of h b"
        unfolding buffers_of_def by blast
      with m have "d < length (multivectors h)" "d \<notin> M"
        by (auto simp: buffers_allocated_def)
      with uo have "multivectors h' ! d = multivectors h ! d" "d < length (multivectors h')"
        by (auto simp: unchanged_outside_def)
      with \<open>d < length (multivectors h)\<close> Some show ?thesis
        using v v' obj by (simp add: field_values_def get_field_def rec Inr Field_get_data_def deref_def)
    qed
  qed
qed

lemma State_copy_layout:
  assumes cons: "registry_consistent h a" and alloc: "buffers_allocated h a"
    and copy: "State_copy h a = (Inr b, h1)"
  shows "a < length (state_objs h1)" and "b < length (state_objs h1)" and "a \<noteq> b"
    and "length (field_objs h) \<le> length (field_objs h1)"
    and "length (multivectors h) \<le> length (multivectors h1)"
    and "\<forall>fa \<in> fields_of h1 a. fa < length (field_objs h)"
    and "\<forall>fa \<in> fields_of h1 b. length (field_objs h) \<le> fa \<and> fa < length (field_objs h1)"
    and "\<forall>d \<in> buffers_of h1 a. d < length (multivectors h)"
    and "\<forall>d \<in> buffers_of h1 b. length (multivectors h) \<le> d \<and> d < length (multivectors h1)"
proof -
  from consistent_state [OF cons] obtain s where s: "deref (state_objs h) a = Some s" ..
  then have la: "a < length (state_objs h)" and s_eq: "state_objs h ! a = s"
    by (simp_all add: deref_Some_iff)
  have valid: "\<forall>fa \<in> set (State_fields s). fa < length (field_objs h)"
    using consistent_fields_valid [OF cons s] by blast
  note e = State_copy_effect [OF copy s valid]
  from e(2) obtain c where c: "state_objs h1 = state_objs h @ [c]"
    "State_fields c = [length (field_objs h) ..< length (field_objs h) + length (State_fields s)]"
    by blast
  have lenf: "length (field_objs h1) = length (field_objs h) + length (State_fields s)"
    by (simp add: e(3))
  show "a < length (state_objs h1)" "b < length (state_objs h1)" "a \<noteq> b"
    using la by (simp_all add: c(1) e(1))
  show "length (field_objs h) \<le> length (field_objs h1)" by (simp add: lenf)
  show "length (multivectors h) \<le> length (multivectors h1)" by (simp add: e(4))
  have fa: "fields_of h1 a = set (State_fields s)"
    using la s_eq by (simp add: fields_of_def deref_def c(1) nth_append)
  have fb: "fields_of h1 b = {length (field_objs h) ..< length (field_objs h) + length (State_fields s)}"
    by (simp add: fields_of_def deref_def c e(1))
  show "\<forall>fa \<in> fields_of h1 a. fa < length (field_objs h)"
    using valid by (simp add: fa)
  show "\<forall>fa \<in> fields_of h1 b. length (field_objs h) \<le> fa \<and> fa < length (field_objs h1)"
    by (simp add: fb lenf)
  have old_obj: "field_objs h1 ! x = field_objs h ! x" if "x < length (field_objs h)" for x
    using that by (simp add: e(3) nth_append)
  show "\<forall>d \<in> buffers_of h1 a. d < length (multivectors h)"
  proof
    fix d assume "d \<in> buffers_of h1 a"
    then obtain x where x: "x \<in> set (State_fields s)" "d \<in> buffer_of h1 x"
      by (auto simp: buffers_of_def fa)
    with valid have xv: "x < length (field_objs h)" by simp
    with x(2) old_obj [OF xv] lenf have "d \<in> buffer_of h x"
      by (simp add: buffer_of_def deref_def)
    with x(1) s have "d \<in> buffers_of h a"
      by (auto simp: buffers_of_def fields_of_def)
    with alloc show "d < length (multivectors h)" by (simp add: buffers_allocated_def)
  qed
  show "\<forall>d \<in> buffers_of h1 b. length (multivectors h) \<le> d \<and> d < length (multivectors h1)"
  proof
    fix d assume "d \<in> buffers_of h1 b"
    then obtain x where x: "x \<in> fields_of h1 b" "d \<in> buffer_of h1 x"
      by (auto simp: buffers_of_def)
    from x(1) obtain i where i: "i < length (State_fields s)" "x = length (field_objs h) + i"
      by (auto simp: fb) (metis add_diff_inverse_nat linorder_not_less nat_add_left_cancel_less)
    have "field_objs h1 ! x = (field_objs h ! (State_fields s ! i))\<lparr>Field_data := Some (length (multivectors h) + i)\<rparr>"
      unfolding i(2) e(3) by (rule copied_object [OF i(1)])
    with x(2) i lenf have "d = length (multivectors h) + i"
      by (simp add: buffer_of_def deref_def)
    with i(1) show "length (multivectors h) \<le> d \<and> d < length (multivectors h1)"
      by (simp add: e(4))
  qed
qed

lemma Field_copy_buffer:
  assumes "Field_copy h fa = (Inr na, h')"
  shows "deref_rcp (multivectors h) (Field_data (field_objs h ! fa)) = Some (multivectors h' ! length (multivectors h))"
  using assms by (auto simp: Field_copy_def deref_def split: if_splits option.splits)

lemma copy_fields_values:
  assumes "copy_fields h fas = (Inr nas, h')" and "\<forall>fa \<in> set fas. fa < length (field_objs h)"
    and "\<forall>fa \<in> set fas. \<forall>d. Field_data (field_objs h ! fa) = Some d \<longrightarrow> d < length (multivectors h)"
  shows "\<forall>i < length fas. deref_rcp (multivectors h) (Field_data (field_objs h ! (fas ! i))) =
           Some (multivectors h' ! (length (multivectors h) + i))"
  using assms
proof (induction fas arbitrary: h nas h')
  case Nil
  then show ?case by simp
next
  case (Cons fa fas)
  obtain r1 h1 where fc: "Field_copy h fa = (r1, h1)" by (cases "Field_copy h fa")
  obtain r2 h2 where cf: "copy_fields h1 fas = (r2, h2)" by (cases "copy_fields h1 fas")
  from Cons.prems(1) fc cf obtain na nas' where r1: "r1 = Inr na" and r2: "r2 = Inr nas'"
    and h': "h' = h2"
    by (auto split: sum.splits)
  note e = Field_copy_effect [OF fc [unfolded r1]]
  from e(4) obtain buffer where m1: "multivectors h1 = multivectors h @ [buffer]" ..
  from Cons.prems(2) have valid: "\<forall>fb \<in> set fas. fb < length (field_objs h)" by simp
  then have valid1: "\<forall>fb \<in> set fas. fb < length (field_objs h1)" by (auto simp: e(3))
  have same: "field_objs h1 ! fb = field_objs h ! fb" if "fb \<in> set fas" for fb
    using that valid by (simp add: e(3) nth_append)
  from Cons.prems(3) have nd: "\<forall>fb \<in> set fas. \<forall>d. Field_data (field_objs h ! fb) = Some d \<longrightarrow> d < length (multivectors h)"
    by simp
  then have nd1: "\<forall>fb \<in> set fas. \<forall>d. Field_data (field_objs h1 ! fb) = Some d \<longrightarrow> d < length (multivectors h1)"
    using same by (auto simp: m1)
  note ih = Cons.IH [OF cf [unfolded r2] valid1 nd1]
  note ce = copy_fields_effect [OF cf [unfolded r2] valid1]
  from ce have tk: "take (length (multivectors h1)) (multivectors h2) = multivectors h1"
    and len2: "length (multivectors h2) = length (multivectors h1) + length fas" by simp_all
  have first: "multivectors h2 ! length (multivectors h) = multivectors h1 ! length (multivectors h)"
  proof -
    have "take (length (multivectors h1)) (multivectors h2) ! length (multivectors h) =
        multivectors h2 ! length (multivectors h)"
      by (rule nth_take) (simp add: m1)
    then show ?thesis by (simp add: tk)
  qed
  show ?case
  proof (intro allI impI)
    fix i assume i: "i < length (fa # fas)"
    show "deref_rcp (multivectors h) (Field_data (field_objs h ! ((fa # fas) ! i))) =
        Some (multivectors h' ! (length (multivectors h) + i))"
    proof (cases i)
      case 0
      with Field_copy_buffer [OF fc [unfolded r1]] first show ?thesis by (simp add: h')
    next
      case (Suc j)
      with i have j: "j < length fas" by simp
      then have mem: "fas ! j \<in> set fas" by simp
      from ih j have "deref_rcp (multivectors h1) (Field_data (field_objs h1 ! (fas ! j))) =
          Some (multivectors h2 ! (length (multivectors h1) + j))" by simp
      then have a: "deref_rcp (multivectors h1) (Field_data (field_objs h ! (fas ! j))) =
          Some (multivectors h2 ! (length (multivectors h) + Suc j))"
        by (simp add: same [OF mem] m1)
      have "deref_rcp (multivectors h1) (Field_data (field_objs h ! (fas ! j))) =
          deref_rcp (multivectors h) (Field_data (field_objs h ! (fas ! j)))"
      proof (cases "Field_data (field_objs h ! (fas ! j))")
        case None
        then show ?thesis by simp
      next
        case (Some d)
        with nd mem have "d < length (multivectors h)" by blast
        with Some show ?thesis by (simp add: deref_def m1 nth_append)
      qed
      with a Suc show ?thesis by (simp add: h')
    qed
  qed
qed

lemma State_copy_values:
  assumes cons: "registry_consistent h a" and alloc: "buffers_allocated h a"
    and copy: "State_copy h a = (Inr b, h1)"
  shows "field_values h1 b n = field_values h a n"
proof -
  from consistent_state [OF cons] obtain s where s: "deref (state_objs h) a = Some s" ..
  then have la: "a < length (state_objs h)" and s_eq: "state_objs h ! a = s"
    by (simp_all add: deref_Some_iff)
  have valid: "\<forall>fa \<in> set (State_fields s). fa < length (field_objs h)"
    using consistent_fields_valid [OF cons s] by blast
  have nd: "\<forall>fa \<in> set (State_fields s). \<forall>d. Field_data (field_objs h ! fa) = Some d \<longrightarrow> d < length (multivectors h)"
  proof (intro ballI allI impI)
    fix fa d assume fa: "fa \<in> set (State_fields s)" and d: "Field_data (field_objs h ! fa) = Some d"
    from fa valid d have "d \<in> buffer_of h fa" by (simp add: buffer_of_def deref_def)
    with fa s have "d \<in> buffers_of h a" by (auto simp: buffers_of_def fields_of_def)
    with alloc show "d < length (multivectors h)" by (simp add: buffers_allocated_def)
  qed
  note e = State_copy_effect [OF copy s valid]
  from e(2) obtain c where c: "state_objs h1 = state_objs h @ [c]"
    "State_field_name_map c = State_field_name_map s"
    "State_fields c = [length (field_objs h) ..< length (field_objs h) + length (State_fields s)]"
    by blast
  from copy s obtain d v g where cells: "deref (double_cells h) (State_density s) = Some d"
    "deref (double_cells h) (State_viscosity s) = Some v" "deref (vector_cells h) (State_gravity s) = Some g"
    by (auto simp: State_copy_def split: option.splits)
  define h0 where "h0 = h\<lparr>double_cells := double_cells h @ [d, v], vector_cells := vector_cells h @ [g]\<rparr>"
  obtain r h2 where cf: "copy_fields h0 (State_fields s) = (r, h2)"
    by (cases "copy_fields h0 (State_fields s)")
  from copy s cells cf obtain fas where r: "r = Inr fas"
    by (cases r) (auto simp: State_copy_def Let_def h0_def)
  from copy s cells cf r have mv: "multivectors h1 = multivectors h2"
    by (auto simp: State_copy_def Let_def h0_def)
  have vals: "\<forall>i < length (State_fields s).
      deref_rcp (multivectors h) (Field_data (field_objs h ! (State_fields s ! i))) =
      Some (multivectors h1 ! (length (multivectors h) + i))"
    using copy_fields_values [OF cf [unfolded r]] valid nd by (simp add: h0_def mv)
  show ?thesis
  proof (cases "State_field_name_map s n")
    case None
    then show ?thesis
      using s by (simp add: field_values_def get_field_def get_field_record_def deref_def c e(1))
  next
    case (Some i)
    from cons s Some have i: "i < length (State_fields s)"
      by (auto simp: registry_consistent_def)
    then have "State_fields s ! i \<in> set (State_fields s)" by simp
    with valid have v: "State_fields s ! i < length (field_objs h)" by simp
    have ra: "get_field_record h a n = Inr (State_fields s ! i)"
      using s Some i by (simp add: get_field_record_def)
    have rb: "get_field_record h1 b n = Inr (length (field_objs h) + i)"
      using Some i by (simp add: get_field_record_def deref_def c e(1))
    have obj: "field_objs h1 ! (length (field_objs h) + i) =
        (field_objs h ! (State_fields s ! i))\<lparr>Field_data := Some (length (multivectors h) + i)\<rparr>"
      unfolding e(3) by (rule copied_object [OF i])
    have lenf: "length (field_objs h) + i < length (field_objs h1)"
      using i by (simp add: e(3))
    have lenm: "length (multivectors h) + i < length (multivectors h1)"
      using i by (simp add: e(4))
    from vals i have "deref_rcp (multivectors h) (Field_data (field_objs h ! (State_fields s ! i))) =
        Some (multivectors h1 ! (length (multivectors h) + i))" by simp
    then show ?thesis
      using v lenf lenm
      by (simp add: field_values_def get_field_def ra rb Field_get_data_def deref_def obj)
  qed
qed

text \<open>
  Claim C7. The copy \<open>b\<close> of a registry \<open>a\<close> holds the values of \<open>a\<close>, and the two are
  independent: whatever operation (a setter, \<open>set_field_pointer\<close>, initialization,
  \<open>require_field\<close>, an assignment to it) is then called on \<open>a\<close>, the data of every
  field of \<open>b\<close> stay as they were, and the other way round.
\<close>

theorem copy_construction_is_value_independent:
  assumes cons: "registry_consistent h a" and alloc: "buffers_allocated h a"
    and copy: "State_copy h a = (Inr b, h1)"
  shows "field_values h1 b n = field_values h a n
       \<and> field_values (snd (apply_op h1 a op)) b n = field_values h1 b n
       \<and> field_values (snd (apply_op h1 b op)) a n = field_values h1 a n"
proof (intro conjI)
  note l = State_copy_layout [OF cons alloc copy]
  show "field_values h1 b n = field_values h a n"
    by (rule State_copy_values [OF cons alloc copy])
  have disj_f: "fields_of h1 b \<inter> fields_of h1 a = {}"
    using l(6,7) by fastforce
  have disj_m: "buffers_of h1 b \<inter> buffers_of h1 a = {}"
    using l(8,9) by fastforce
  show "field_values (snd (apply_op h1 a op)) b n = field_values h1 b n"
  proof (rule field_values_unchanged [OF apply_op_footprint l(2)])
    show "b \<notin> {a}" using l(3) by simp
    show "fields_of h1 b \<inter> fields_of h1 a = {}" by (rule disj_f)
    show "\<forall>fa \<in> fields_of h1 b. fa < length (field_objs h1)" using l(7) by simp
    show "buffers_of h1 b \<inter> buffers_of h1 a = {}" by (rule disj_m)
    show "buffers_allocated h1 b" using l(9) by (simp add: buffers_allocated_def)
  qed
  show "field_values (snd (apply_op h1 b op)) a n = field_values h1 a n"
  proof (rule field_values_unchanged [OF apply_op_footprint l(1)])
    show "a \<notin> {b}" using l(3) by simp
    show "fields_of h1 a \<inter> fields_of h1 b = {}" using disj_f by blast
    show "\<forall>fa \<in> fields_of h1 a. fa < length (field_objs h1)" using l(4,6) by fastforce
    show "buffers_of h1 a \<inter> buffers_of h1 b = {}" using disj_m by blast
    show "buffers_allocated h1 a" using l(5,8) by (fastforce simp: buffers_allocated_def)
  qed
qed

lemma demo_two_fields_consistent: "registry_consistent demo_two_fields 0"
  unfolding demo_two_fields_def
  by (rule require_fields_consistent [OF demo_registry_consistent])

lemma demo_two_fields_allocated: "buffers_allocated demo_two_fields 0"
  by (simp add: buffers_allocated_def buffers_of_def fields_of_def buffer_of_def deref_def
      demo_two_fields_eval(2))

lemma demo_snapshot_copy: "State_copy demo_two_fields 0 = (Inr 1, demo_snapshot)"
  by (simp add: demo_snapshot_def demo_two_fields_eval(2) State_copy_def Field_copy_def deref_def)

text \<open>
  The registry with "pressure" and "temperature" and its copy at address 1: a setter
  called on either changes the data of that one only.
\<close>

theorem copy_construction_is_value_independent_witness:
  "field_values demo_snapshot 1 ''pressure'' = Some [[0, 0]]
   \<and> field_values (snd (apply_op demo_snapshot 0 (SetFieldScalar ''pressure'' ''state'' 5))) 0 ''pressure'' = Some [[5, 5]]
   \<and> field_values (snd (apply_op demo_snapshot 0 (SetFieldScalar ''pressure'' ''state'' 5))) 1 ''pressure'' = Some [[0, 0]]
   \<and> field_values (snd (apply_op demo_snapshot 1 (SetFieldScalar ''pressure'' ''state'' 7))) 1 ''pressure'' = Some [[7, 7]]
   \<and> field_values (snd (apply_op demo_snapshot 1 (SetFieldScalar ''pressure'' ''state'' 7))) 0 ''pressure'' = Some [[0, 0]]"
proof -
  note t = copy_construction_is_value_independent
    [OF demo_two_fields_consistent demo_two_fields_allocated demo_snapshot_copy]
  have v0: "field_values demo_two_fields 0 ''pressure'' = Some [[0, 0]]"
    by (simp add: field_values_def get_field_def get_field_record_def Field_get_data_def deref_def
        demo_two_fields_eval(2))
  have v1: "field_values demo_snapshot 0 ''pressure'' = Some [[0, 0]]"
    by (simp add: field_values_def get_field_def get_field_record_def Field_get_data_def deref_def
        demo_snapshot_eval)
  have w0: "field_values (snd (apply_op demo_snapshot 0 (SetFieldScalar ''pressure'' ''state'' 5))) 0 ''pressure'' = Some [[5, 5]]"
    by (simp add: field_values_def get_field_def get_field_record_def Field_get_data_def deref_def
        demo_snapshot_eval set_field_scalar_def Field_set_data_scalar_def Field_write_def)
  have w1: "field_values (snd (apply_op demo_snapshot 1 (SetFieldScalar ''pressure'' ''state'' 7))) 1 ''pressure'' = Some [[7, 7]]"
    by (simp add: field_values_def get_field_def get_field_record_def Field_get_data_def deref_def
        demo_snapshot_eval set_field_scalar_def Field_set_data_scalar_def Field_write_def)
  from t [of "''pressure''" "SetFieldScalar ''pressure'' ''state'' 5"]
    t [of "''pressure''" "SetFieldScalar ''pressure'' ''state'' 7"] v0 v1 w0 w1
  show ?thesis by simp
qed

section \<open>The invariant under every operation\<close>








section \<open>Initialization from the parameter list\<close>


lemma read_constants_all_present:
  "read_constants pl names = Inr (Some u) \<Longrightarrow>
   \<forall>name \<in> set names. isParameter pl (''Constant '' @ name)"
proof (induction names arbitrary: u)
  case Nil
  then show ?case by simp
next
  case (Cons name names)
  from Cons.prems have p: "isParameter pl (''Constant '' @ name)"
    by (simp split: if_splits)
  with Cons.prems obtain vs where "read_constants pl names = Inr (Some vs)"
    by (auto split: sum.splits option.splits)
  from Cons.IH [OF this] p show ?case by simp
qed

lemma init_field_global_missing:
  assumes "deref (field_objs h) fa = Some f"
    and "\<exists>name \<in> set (Field_subfield_names f). \<not> isParameter pl (''Constant '' @ name)"
  shows "snd (init_field_global pl h fa) = h"
proof (cases "read_constants pl (Field_subfield_names f)")
  case (Inl e)
  with assms(1) show ?thesis by (simp add: init_field_global_def)
next
  case (Inr r)
  show ?thesis
  proof (cases r)
    case None
    with Inr assms(1) show ?thesis by (simp add: init_field_global_def)
  next
    case (Some u)
    with Inr read_constants_all_present [of pl "Field_subfield_names f" u] assms(2)
    show ?thesis by blast
  qed
qed

lemma init_field_block_missing:
  assumes "deref (field_objs h) fa = Some f" and "Field_location f = FIELD_LOCATION_CELL"
    and "\<exists>name \<in> set (Field_subfield_names f). \<not> isParameter sub (''Constant '' @ name)"
  shows "snd (init_field_block sub b h fa) = h"
proof (cases "read_constants sub (Field_subfield_names f)")
  case (Inl e)
  with assms(1,2) show ?thesis by (simp add: init_field_block_def)
next
  case (Inr r)
  show ?thesis
  proof (cases r)
    case None
    with Inr assms(1,2) show ?thesis by (simp add: init_field_block_def)
  next
    case (Some u)
    with Inr read_constants_all_present [of sub "Field_subfield_names f" u] assms(3)
    show ?thesis by blast
  qed
qed

lemma for_each_skip:
  assumes body: "\<And>h fb. unchanged_outside h (snd (body h fb)) {} {fb} (buffer_of h fb) \<and>
                         same_pointers h (snd (body h fb))"
    and skip: "\<And>h'. deref (field_objs h') fa = Some f \<Longrightarrow> snd (body h' fa) = h'"
    and f: "deref (field_objs h) fa = Some f"
  shows "unchanged_outside h (snd (for_each body h fas)) {} (set fas - {fa})
           (\<Union>fb \<in> set fas - {fa}. buffer_of h fb) \<and>
         same_pointers h (snd (for_each body h fas))"
  using f
proof (induction fas arbitrary: h)
  case Nil
  then show ?case by (simp add: uo_refl sp_refl)
next
  case (Cons fb fas)
  obtain r h1 where b: "body h fb = (r, h1)" by (cases "body h fb")
  from body [of h fb] b have u1: "unchanged_outside h h1 {} {fb} (buffer_of h fb)"
    and s1: "same_pointers h h1" by simp_all
  have u1': "unchanged_outside h h1 {} (set (fb # fas) - {fa}) (\<Union>x \<in> set (fb # fas) - {fa}. buffer_of h x)"
  proof (cases "fb = fa")
    case True
    with skip [OF Cons.prems] b have "h1 = h" by simp
    then show ?thesis by (simp add: uo_refl)
  next
    case False
    show ?thesis by (rule uo_mono [OF u1]) (use False in auto)
  qed
  have f1: "deref (field_objs h1) fa = Some f"
  proof (cases "fb = fa")
    case True
    with skip [OF Cons.prems] b have "h1 = h" by simp
    with Cons.prems show ?thesis by simp
  next
    case False
    from Cons.prems have "fa < length (field_objs h)" "field_objs h ! fa = f"
      by (simp_all add: deref_Some_iff)
    with u1 False show ?thesis
      by (auto simp: unchanged_outside_def deref_def)
  qed
  show ?case
  proof (cases r)
    case (Some e)
    with b u1' s1 show ?thesis by (simp add: then_do_def)
  next
    case None
    from Cons.IH [OF f1]
    have u2: "unchanged_outside h1 (snd (for_each body h1 fas)) {} (set fas - {fa})
        (\<Union>x \<in> set fas - {fa}. buffer_of h x)"
      and s2: "same_pointers h1 (snd (for_each body h1 fas))"
      by (simp_all add: sp_buffer_of [OF s1])
    have "unchanged_outside h (snd (for_each body h1 fas)) {} (set (fb # fas) - {fa})
        (\<Union>x \<in> set (fb # fas) - {fa}. buffer_of h x)"
      by (rule uo_trans [OF u1' uo_mono [OF u2]]) auto
    with None b sp_trans [OF s1 s2] show ?thesis by (simp add: then_do_def)
  qed
qed

lemma field_snapshot_unchanged:
  assumes uo: "unchanged_outside h h' S F M"
    and f: "deref (field_objs h) fa = Some f" "fa \<notin> F"
    and m: "buffer_of h fa \<inter> M = {}" "\<forall>d \<in> buffer_of h fa. d < length (multivectors h)"
  shows "field_snapshot h' fa = field_snapshot h fa"
proof -
  from f have v: "fa < length (field_objs h)" and f_eq: "field_objs h ! fa = f"
    by (simp_all add: deref_Some_iff)
  with uo f(2) have obj: "field_objs h' ! fa = f" and v': "fa < length (field_objs h')"
    by (auto simp: unchanged_outside_def)
  show ?thesis
  proof (cases "Field_data f")
    case None
    then show ?thesis using v v' obj f_eq by (simp add: field_snapshot_def deref_def)
  next
    case (Some d)
    with v f_eq have "d \<in> buffer_of h fa" by (simp add: buffer_of_def deref_def)
    with m have "d < length (multivectors h)" "d \<notin> M" by auto
    with uo have "multivectors h' ! d = multivectors h ! d" "d < length (multivectors h')"
      by (auto simp: unchanged_outside_def)
    with \<open>d < length (multivectors h)\<close> Some show ?thesis
      using v v' obj f_eq by (simp add: field_snapshot_def deref_def)
  qed
qed

text \<open>
  Claim C5. Constant-value initialization is all-or-nothing per field. Take a cell-located
  Field whose count of subfield names equals its number of degrees of freedom, and a
  parameter list (the global one, or the sublist of a mesh block) that lacks the value
  \<open>Constant <name>\<close> of one of its subfield names. Then the body of the loop of
  \<open>initialize_from_parameter_list\<close> for that Field, in the global pass and in a
  block-scoped pass, leaves the whole store as it was: no element of the buffer is assigned
  and \<open>set_initialized\<close> is not called. And the whole pass over a list of Fields, which
  does assign the other Fields, leaves that Field and the contents of its buffer as they
  were, provided that no other Field of the pass shares its buffer. So a Field is assigned
  and marked initialized by a pass only if the pass has a value for all of its subfield
  names.
\<close>

theorem initialization_is_all_or_nothing:
  assumes f: "deref (field_objs h) fa = Some f"
    and cell: "Field_location f = FIELD_LOCATION_CELL"
    and count: "int (length (Field_subfield_names f)) = Field_num_dofs f"
    and missing: "\<exists>name \<in> set (Field_subfield_names f). \<not> isParameter pl (''Constant '' @ name)"
  shows "snd (init_field_global pl h fa) = h
    \<and> snd (init_field_block pl mesh_block_id h fa) = h
    \<and> ((\<forall>fb \<in> set fas. fb \<noteq> fa \<longrightarrow> buffer_of h fb \<inter> buffer_of h fa = {}) \<longrightarrow>
        (\<forall>d \<in> buffer_of h fa. d < length (multivectors h)) \<longrightarrow>
        field_snapshot (snd (for_each (init_field_global pl) h fas)) fa = field_snapshot h fa
        \<and> field_snapshot (snd (for_each (init_field_block pl mesh_block_id) h fas)) fa = field_snapshot h fa)"
proof (intro conjI impI)
  show "snd (init_field_global pl h fa) = h"
    by (rule init_field_global_missing [OF f missing])
  show "snd (init_field_block pl mesh_block_id h fa) = h"
    by (rule init_field_block_missing [OF f cell missing])
next
  assume unshared: "\<forall>fb \<in> set fas. fb \<noteq> fa \<longrightarrow> buffer_of h fb \<inter> buffer_of h fa = {}"
    and allocated: "\<forall>d \<in> buffer_of h fa. d < length (multivectors h)"
  from unshared have disj: "buffer_of h fa \<inter> (\<Union>fb \<in> set fas - {fa}. buffer_of h fb) = {}"
    by auto
  have "unchanged_outside h (snd (for_each (init_field_global pl) h fas)) {} (set fas - {fa})
          (\<Union>fb \<in> set fas - {fa}. buffer_of h fb)"
  proof (rule for_each_skip [THEN conjunct1])
    show "unchanged_outside h' (snd (init_field_global pl h' fb)) {} {fb} (buffer_of h' fb) \<and>
          same_pointers h' (snd (init_field_global pl h' fb))" for h' fb
      by (rule frame_init_field_global)
    show "snd (init_field_global pl h' fa) = h'" if "deref (field_objs h') fa = Some f" for h'
      by (rule init_field_global_missing [OF that missing])
    show "deref (field_objs h) fa = Some f" by (rule f)
  qed
  then show "field_snapshot (snd (for_each (init_field_global pl) h fas)) fa = field_snapshot h fa"
    by (rule field_snapshot_unchanged [OF _ f _ disj allocated]) simp
  have "unchanged_outside h (snd (for_each (init_field_block pl mesh_block_id) h fas)) {} (set fas - {fa})
          (\<Union>fb \<in> set fas - {fa}. buffer_of h fb)"
  proof (rule for_each_skip [THEN conjunct1])
    show "unchanged_outside h' (snd (init_field_block pl mesh_block_id h' fb)) {} {fb} (buffer_of h' fb) \<and>
          same_pointers h' (snd (init_field_block pl mesh_block_id h' fb))" for h' fb
      by (rule frame_init_field_block)
    show "snd (init_field_block pl mesh_block_id h' fa) = h'" if "deref (field_objs h') fa = Some f" for h'
      by (rule init_field_block_missing [OF that cell missing])
    show "deref (field_objs h) fa = Some f" by (rule f)
  qed
  then show "field_snapshot (snd (for_each (init_field_block pl mesh_block_id) h fas)) fa = field_snapshot h fa"
    by (rule field_snapshot_unchanged [OF _ f _ disj allocated]) simp
qed

lemma demo_named_eval:
  "demo_named = \<lparr>state_objs = [\<lparr>State_mesh_maps = demo_mesh, State_parameter_list = [],
       State_density = 0, State_viscosity = 1, State_gravity = 0,
       State_field_name_map = [''pressure'' \<mapsto> 0, ''temperature'' \<mapsto> 1], State_fields = [0, 1],
       State_time = 0, State_cycle = 0, State_status = 0\<rparr>],
     field_objs = [\<lparr>Field_fieldname = ''pressure'', Field_location = FIELD_LOCATION_CELL,
         Field_mesh_maps = demo_mesh, Field_owner = ''state'', Field_num_dofs = 1,
         Field_subfield_names = [''Pressure''], Field_initialized = False, Field_dirty = False,
         Field_data = Some 0\<rparr>,
       \<lparr>Field_fieldname = ''temperature'', Field_location = FIELD_LOCATION_CELL,
         Field_mesh_maps = demo_mesh, Field_owner = ''energy'', Field_num_dofs = 1,
         Field_subfield_names = [''Temperature''], Field_initialized = False, Field_dirty = False,
         Field_data = Some 1\<rparr>],
     multivectors = [[[0, 0]], [[0, 0]]], double_cells = [0, 0], vector_cells = [[0, 0, 0]]\<rparr>"
  by (simp add: demo_named_def demo_two_fields_eval(2) set_subfield_names_def get_field_record_def
      Field_set_subfield_names_def deref_def update_field_def)

text \<open>
  The pass with a constant for "Pressure" only on the registry of two fields: "pressure"
  is assigned the constant and marked initialized, "temperature" and its buffer are as
  they were.
\<close>

theorem initialization_is_all_or_nothing_witness:
  "field_snapshot demo_named 1 =
     Some (\<lparr>Field_fieldname = ''temperature'', Field_location = FIELD_LOCATION_CELL,
         Field_mesh_maps = demo_mesh, Field_owner = ''energy'', Field_num_dofs = 1,
         Field_subfield_names = [''Temperature''], Field_initialized = False, Field_dirty = False,
         Field_data = Some 1\<rparr>, Some [[0, 0]])
   \<and> \<not> isParameter demo_constants (''Constant '' @ ''Temperature'')
   \<and> snd (init_field_global demo_constants demo_named 1) = demo_named
   \<and> snd (init_field_block demo_constants 7 demo_named 1) = demo_named
   \<and> field_snapshot (snd (for_each (init_field_global demo_constants) demo_named [0, 1])) 1
       = field_snapshot demo_named 1
   \<and> field_snapshot (snd (for_each (init_field_block demo_constants 7) demo_named [0, 1])) 1
       = field_snapshot demo_named 1
   \<and> field_snapshot (snd (for_each (init_field_global demo_constants) demo_named [0, 1])) 0 =
     Some (\<lparr>Field_fieldname = ''pressure'', Field_location = FIELD_LOCATION_CELL,
         Field_mesh_maps = demo_mesh, Field_owner = ''state'', Field_num_dofs = 1,
         Field_subfield_names = [''Pressure''], Field_initialized = True, Field_dirty = True,
         Field_data = Some 0\<rparr>, Some [[5, 5]])"
proof -
  let ?f = "\<lparr>Field_fieldname = ''temperature'', Field_location = FIELD_LOCATION_CELL,
         Field_mesh_maps = demo_mesh, Field_owner = ''energy'', Field_num_dofs = 1,
         Field_subfield_names = [''Temperature''], Field_initialized = False, Field_dirty = False,
         Field_data = Some 1\<rparr>"
  have f: "deref (field_objs demo_named) 1 = Some ?f"
    by (simp add: demo_named_eval deref_def)
  have snap: "field_snapshot demo_named 1 = Some (?f, Some [[0, 0]])"
    by (simp add: field_snapshot_def demo_named_eval deref_def)
  have missing: "\<exists>name \<in> set (Field_subfield_names ?f). \<not> isParameter demo_constants (''Constant '' @ name)"
    by (simp add: isParameter_def demo_constants_def)
  have unshared: "\<forall>fb \<in> set [0, 1]. fb \<noteq> 1 \<longrightarrow> buffer_of demo_named fb \<inter> buffer_of demo_named 1 = {}"
    by (simp add: buffer_of_def demo_named_eval deref_def)
  have allocated: "\<forall>d \<in> buffer_of demo_named 1. d < length (multivectors demo_named)"
    by (simp add: buffer_of_def demo_named_eval deref_def)
  have assigned: "field_snapshot (snd (for_each (init_field_global demo_constants) demo_named [0, 1])) 0 =
     Some (\<lparr>Field_fieldname = ''pressure'', Field_location = FIELD_LOCATION_CELL,
         Field_mesh_maps = demo_mesh, Field_owner = ''state'', Field_num_dofs = 1,
         Field_subfield_names = [''Pressure''], Field_initialized = True, Field_dirty = True,
         Field_data = Some 0\<rparr>, Some [[5, 5]])"
    by (simp add: field_snapshot_def demo_named_eval deref_def then_do_def init_field_global_def
        isParameter_def get_double_def demo_constants_def Field_set_data_array_def Field_write_def
        Field_set_initialized_def update_field_def)
  from initialization_is_all_or_nothing [OF f _ _ missing, of 7 "[0, 1]"] unshared allocated
    snap missing assigned
  show ?thesis by simp
qed

section \<open>The weak coupling controller\<close>

lemma advance_loop_successes:
  "all_succeed ps dt w \<Longrightarrow>
   advance_loop (ps @ rest) dt False (w, calls) =
   advance_loop rest dt False (world_after ps dt w, calls @ map (\<lambda>q. (PK_name q, dt, False)) ps)"
proof (induction ps arbitrary: w calls)
  case Nil
  then show ?case by simp
next
  case (Cons p ps)
  obtain fl w1 where adv: "PK_advance p dt w = (fl, w1)"
    by (cases "PK_advance p dt w")
  from Cons.prems adv have ok: "\<not> fl" and rest_ok: "all_succeed ps dt w1"
    by simp_all
  have "advance_loop ((p # ps) @ rest) dt False (w, calls) =
        advance_loop (ps @ rest) dt False (w1, calls @ [(PK_name p, dt, False)])"
    using adv ok by simp
  also have "\<dots> = advance_loop rest dt False
      (world_after ps dt w1, (calls @ [(PK_name p, dt, False)]) @ map (\<lambda>q. (PK_name q, dt, False)) ps)"
    by (rule Cons.IH [OF rest_ok])
  finally show ?case using adv by simp
qed

text \<open>
  Claim C2. \<open>WeakMPC::advance(dt)\<close> calls \<open>advance(dt)\<close> of the sub-PKs in declared
  order. When the sub-PKs are \<open>ps @ p # qs\<close>, the PKs \<open>ps\<close> all succeed and \<open>p\<close>, run
  in the world they left, reports failure, then the call returns failure, the world is the
  one \<open>p\<close> left, and the calls made are those of \<open>ps\<close> and of \<open>p\<close>, in this
  order, and none of \<open>qs\<close>. When every sub-PK succeeds, all are called in order and the
  call returns success.
\<close>

theorem WeakMPC_advance_stops_at_first_failure:
  "(MPC_sub_pks mpc = ps @ p # qs \<longrightarrow> all_succeed ps dt w \<longrightarrow>
      fst (PK_advance p dt (world_after ps dt w)) \<longrightarrow>
      advance mpc dt (w, calls) =
        (True, snd (PK_advance p dt (world_after ps dt w)),
         calls @ map (\<lambda>q. (PK_name q, dt, False)) ps @ [(PK_name p, dt, True)]))
   \<and> (all_succeed (MPC_sub_pks mpc) dt w \<longrightarrow>
      advance mpc dt (w, calls) =
        (False, world_after (MPC_sub_pks mpc) dt w,
         calls @ map (\<lambda>q. (PK_name q, dt, False)) (MPC_sub_pks mpc)))"
proof (intro conjI impI)
  assume pks: "MPC_sub_pks mpc = ps @ p # qs" and ok: "all_succeed ps dt w"
    and failed: "fst (PK_advance p dt (world_after ps dt w))"
  obtain w2 where adv: "PK_advance p dt (world_after ps dt w) = (True, w2)"
    using failed by (cases "PK_advance p dt (world_after ps dt w)") simp
  have "advance mpc dt (w, calls) = advance_loop (ps @ p # qs) dt False (w, calls)"
    by (simp add: advance_def pks)
  also have "\<dots> = advance_loop (p # qs) dt False
      (world_after ps dt w, calls @ map (\<lambda>q. (PK_name q, dt, False)) ps)"
    by (rule advance_loop_successes [OF ok])
  also have "\<dots> = (True, w2, calls @ map (\<lambda>q. (PK_name q, dt, False)) ps @ [(PK_name p, dt, True)])"
    using adv by simp
  finally show "advance mpc dt (w, calls) =
      (True, snd (PK_advance p dt (world_after ps dt w)),
       calls @ map (\<lambda>q. (PK_name q, dt, False)) ps @ [(PK_name p, dt, True)])"
    using adv by simp
next
  assume ok: "all_succeed (MPC_sub_pks mpc) dt w"
  have "advance mpc dt (w, calls) = advance_loop (MPC_sub_pks mpc @ []) dt False (w, calls)"
    by (simp add: advance_def)
  also have "\<dots> = advance_loop [] dt False
      (world_after (MPC_sub_pks mpc) dt w, calls @ map (\<lambda>q. (PK_name q, dt, False)) (MPC_sub_pks mpc))"
    by (rule advance_loop_successes [OF ok])
  finally show "advance mpc dt (w, calls) =
      (False, world_after (MPC_sub_pks mpc) dt w,
       calls @ map (\<lambda>q. (PK_name q, dt, False)) (MPC_sub_pks mpc))"
    by simp
qed

text \<open>
  The example of the specification: sub-PKs \<open>[P1, P2, P3]\<close> over a world that lists the
  PKs that wrote to it, \<open>P2\<close> failing. \<open>P1\<close> and \<open>P2\<close> are called, \<open>P3\<close> is not, and
  the call returns failure; without \<open>P2\<close>, both others are called and the call succeeds.
\<close>

theorem WeakMPC_advance_stops_at_first_failure_witness:
  "advance \<lparr>MPC_sub_pks =
       [\<lparr>PK_name = ''P1'', PK_advance = (\<lambda>dt w. (False, w @ [1::nat]))\<rparr>,
        \<lparr>PK_name = ''P2'', PK_advance = (\<lambda>dt w. (True, w @ [2]))\<rparr>,
        \<lparr>PK_name = ''P3'', PK_advance = (\<lambda>dt w. (False, w @ [3]))\<rparr>]\<rparr> 1 ([], [])
     = (True, [1, 2], [(''P1'', 1, False), (''P2'', 1, True)])
   \<and> advance \<lparr>MPC_sub_pks =
       [\<lparr>PK_name = ''P1'', PK_advance = (\<lambda>dt w. (False, w @ [1::nat]))\<rparr>,
        \<lparr>PK_name = ''P3'', PK_advance = (\<lambda>dt w. (False, w @ [3]))\<rparr>]\<rparr> 1 ([], [])
     = (False, [1, 3], [(''P1'', 1, False), (''P3'', 1, False)])"
  using WeakMPC_advance_stops_at_first_failure
      [of "\<lparr>MPC_sub_pks =
         [\<lparr>PK_name = ''P1'', PK_advance = (\<lambda>dt w. (False, w @ [1::nat]))\<rparr>,
          \<lparr>PK_name = ''P2'', PK_advance = (\<lambda>dt w. (True, w @ [2]))\<rparr>,
          \<lparr>PK_name = ''P3'', PK_advance = (\<lambda>dt w. (False, w @ [3]))\<rparr>]\<rparr>"
          "[\<lparr>PK_name = ''P1'', PK_advance = (\<lambda>dt w. (False, w @ [1::nat]))\<rparr>]"
          "\<lparr>PK_name = ''P2'', PK_advance = (\<lambda>dt w. (True, w @ [2]))\<rparr>"
          "[\<lparr>PK_name = ''P3'', PK_advance = (\<lambda>dt w. (False, w @ [3]))\<rparr>]" 1 "[]" "[]"]
    WeakMPC_advance_stops_at_first_failure
      [of "\<lparr>MPC_sub_pks =
         [\<lparr>PK_name = ''P1'', PK_advance = (\<lambda>dt w. (False, w @ [1::nat]))\<rparr>,
          \<lparr>PK_name = ''P3'', PK_advance = (\<lambda>dt w. (False, w @ [3]))\<rparr>]\<rparr>"
          "[]" "\<lparr>PK_name = ''P1'', PK_advance = (\<lambda>dt w. (False, w @ [1::nat]))\<rparr>" "[]" 1 "[]" "[]"]
  by simp

end
